theory Spec2Isabelle
  imports Main "HOL-Library.Word" "HOL-Library.Sublist" "HOL-Library.Multiset"
begin

section \<open>Data model of api-put-object-streaming.go\<close>

text \<open>
  Go's \<open>int64\<close> is a 64-bit word: \<open>+\<close>, \<open>-\<close> and \<open>*\<close> wrap around, and the
  comparisons of the source are the signed ones (\<open><s\<close>). Go's \<open>int\<close> (part numbers and
  counts) is modelled as \<open>int\<close>; \<open>int64(p - 1)\<close> is \<open>word_of_int (p - 1)\<close>.
\<close>

type_synonym int64 = "64 word"

type_synonym metadata = "(string \<times> string list) list"
  \<comment> \<open>\<open>map[string][]string\<close>; the order of the list is the order in which \<open>range\<close> visits the map\<close>

type_synonym header = "string \<rightharpoonup> string list"
  \<comment> \<open>\<open>http.Header\<close>\<close>

datatype SignatureType =
  SignatureDefault | SignatureV4 | SignatureV2 | SignatureV4Streaming | SignatureAnonymous

record Client =
  endpointURL :: string
  overrideSignerType :: SignatureType

record ErrorResponse =
  Code :: string
  Message :: string

record Response =
  StatusCode :: int
  Header :: header

text \<open>
  The error values this file creates or compares. \<open>EOF\<close> is \<open>io.EOF\<close>. The constructors
  \<open>ErrEntityTooLarge\<close>, \<open>ErrEntityTooSmall\<close>, \<open>ErrUnexpectedEOF\<close>, \<open>ErrInvalidArgument\<close>
  and \<open>httpRespToErrorResponse\<close> are functions of the repository that are not in this source
  file: their calls are kept as symbolic values with the arguments the source passes.
  \<open>OtherError\<close> is any other error a collaborator may return.
\<close>

datatype error =
  EOF
  | ErrEntityTooLarge int64 int64 string string
  | ErrEntityTooSmall int64 string string
  | ErrUnexpectedEOF int64 int64 string string
  | ErrInvalidArgument string
  | httpRespToErrorResponse Response string string
  | OtherError string string

record ObjectPart =
  PartNumber :: int
  ETag :: string
  Size :: int64

record CompletePart =
  PartNumber :: int
  ETag :: string

record completeMultipartUpload =
  Parts :: "CompletePart list"

record ObjectInfo =
  ETag :: string
  Size :: int64

text \<open>uploadedPartRes - the response received from a part upload.\<close>

record uploadedPartRes =
  Error :: "error option"
  PartNum :: int
  Size :: int64
  Part :: "ObjectPart option"

record uploadPartReq =
  PartNum :: int
  Part :: "ObjectPart option"

text \<open>
  Readers are values of a type \<open>'r\<close>; the wrappers the source puts around them before it
  hands them to a collaborator are kept as terms.
\<close>

datatype 'r reader =
  Reader 'r
  | newHook "'r reader" "'r option"
  | LimitReader "'r reader" int64
  | NewSectionReader "'r reader" int64 int64

record 'r requestMetadata =
  bucketName :: string
  objectName :: string
  customHeader :: header
  contentBody :: "'r reader"
  contentLength :: int64
  contentMD5Bytes :: "8 word list option"
  contentSHA256Bytes :: "8 word list option"

text \<open>The requests sent to the storage service, in the order they are issued.\<close>

datatype 'r call =
  NewUploadID string string metadata
  | UploadPart string string string "'r reader" int int64
  | CompleteMultipartUpload string string string completeMultipartUpload
  | ExecuteMethod string "'r requestMetadata"

text \<open>
  A Go function either returns, panics, or never returns (a goroutine blocked for ever on a
  channel).
\<close>

datatype 'a outcome = Return 'a | Panic | Blocked

text \<open>
  The collaborators of this file: functions, constants and type tests that the source calls
  and that live in other files of the repository or in the Go library. Each one is a
  parameter. A collaborator that talks to the service answers a request with a result (an
  operation makes each of its requests once, so the answers may be any); the requests made
  are recorded in the list of calls that every operation threads through.
  uploadPart returns an ObjectPart and an error: \<open>uploadPart env \<dots>\<close> is \<open>Inr part\<close> for a call
  that returns \<open>part\<close> with a nil error and \<open>Inl err\<close> for a call that returns the error
  \<open>err\<close>, and \<open>failedPart env \<dots>\<close> is the ObjectPart that comes with that error.
  \<open>CopyN env progress copied n\<close> is the error of \<open>io.CopyN(ioutil.Discard, progress, n)\<close>
  when the earlier calls on this reader copied the sizes \<open>copied\<close>.
\<close>

record 'r env =
  CheckValidBucketName :: "string \<Rightarrow> error option"
  CheckValidObjectName :: "string \<Rightarrow> error option"
  IsGoogleEndpoint :: "string \<Rightarrow> bool"
  isObject :: "'r \<Rightarrow> bool"
  isReadAt :: "'r \<Rightarrow> bool"
  isFile :: "'r \<Rightarrow> bool"
  implementsReaderAt :: "'r \<Rightarrow> bool"
  ToErrorResponse :: "error \<Rightarrow> ErrorResponse"
  maxSinglePutObjectSize :: int64
  totalWorkers :: int
  optimalPartInfo :: "int64 \<Rightarrow> error + (int \<times> int64 \<times> int64)"
  newUploadID :: "Client \<Rightarrow> string \<Rightarrow> string \<Rightarrow> metadata \<Rightarrow> error + string"
  uploadPart :: "Client \<Rightarrow> string \<Rightarrow> string \<Rightarrow> string \<Rightarrow> 'r reader \<Rightarrow> int \<Rightarrow> int64
                  \<Rightarrow> error + ObjectPart"
  failedPart :: "Client \<Rightarrow> string \<Rightarrow> string \<Rightarrow> string \<Rightarrow> 'r reader \<Rightarrow> int \<Rightarrow> int64
                  \<Rightarrow> ObjectPart"
  completeMultipartUpload :: "Client \<Rightarrow> string \<Rightarrow> string \<Rightarrow> string \<Rightarrow> completeMultipartUpload
                  \<Rightarrow> error option"
  executeMethod :: "Client \<Rightarrow> string \<Rightarrow> 'r requestMetadata \<Rightarrow> Response option \<times> error option"
  CopyN :: "'r \<Rightarrow> int64 list \<Rightarrow> int64 \<Rightarrow> error option"
  CanonicalMIMEHeaderKey :: "string \<Rightarrow> string"

section \<open>Strings and headers\<close>

fun strings_Contains :: "string \<Rightarrow> string \<Rightarrow> bool" where
  "strings_Contains [] substr = (substr = [])"
| "strings_Contains (c # s) substr = (prefix substr (c # s) \<or> strings_Contains s substr)"

definition TrimPrefix :: "string \<Rightarrow> string \<Rightarrow> string" where
  "TrimPrefix s p = (if prefix p s then drop (length p) s else s)"

definition TrimSuffix :: "string \<Rightarrow> string \<Rightarrow> string" where
  "TrimSuffix s p = (if suffix p s then take (length s - length p) s else s)"

definition Header_Set :: "'r env \<Rightarrow> header \<Rightarrow> string \<Rightarrow> string \<Rightarrow> header" where
  "Header_Set env h k v = h(CanonicalMIMEHeaderKey env k \<mapsto> [v])"

definition Header_Get :: "'r env \<Rightarrow> header \<Rightarrow> string \<Rightarrow> string" where
  "Header_Get env h k =
     (case h (CanonicalMIMEHeaderKey env k) of
        None \<Rightarrow> ''''
      | Some [] \<Rightarrow> ''''
      | Some (v # _) \<Rightarrow> v)"

text \<open>\<open>fmt.Sprintf("%d", i)\<close>.\<close>

fun digits :: "nat \<Rightarrow> string" where
  "digits n =
     (if n < 10 then [''0123456789'' ! n]
      else digits (n div 10) @ [''0123456789'' ! (n mod 10)])"

declare digits.simps [simp del]

definition Sprintf_d :: "int \<Rightarrow> string" where
  "Sprintf_d i = (if i < 0 then CHR ''-'' # digits (nat (- i)) else digits (nat i))"

section \<open>The single-shot path\<close>

definition emptyObjectInfo :: ObjectInfo where
  "emptyObjectInfo = \<lparr>ObjectInfo.ETag = '''', ObjectInfo.Size = 0\<rparr>"

text \<open>
  putObjectDo - executes the put object http operation. The deferred closeResponse does not
  change what is returned and is left out; reading the header of a nil response panics.
\<close>

definition putObjectDo ::
  "'r env \<Rightarrow> Client \<Rightarrow> string \<Rightarrow> string \<Rightarrow> 'r reader \<Rightarrow> 8 word list option \<Rightarrow> 8 word list option
    \<Rightarrow> int64 \<Rightarrow> metadata \<Rightarrow> 'r call list \<Rightarrow> (ObjectInfo \<times> error option) outcome \<times> 'r call list"
where
  "putObjectDo env c bucket object rd md5Sum sha256Sum sz metaData tr =
    (case CheckValidBucketName env bucket of
       Some err \<Rightarrow> (Return (emptyObjectInfo, Some err), tr)
     | None \<Rightarrow>
    (case CheckValidObjectName env object of
       Some err \<Rightarrow> (Return (emptyObjectInfo, Some err), tr)
     | None \<Rightarrow>
       let hdr = fold (\<lambda>(k, v) h. if length v > 0 then Header_Set env h k (v ! 0) else h)
                   metaData Map.empty;
           hdr = (if (case map_of metaData ''Content-Type'' of
                        None \<Rightarrow> True | Some v \<Rightarrow> length v = 0)
                  then Header_Set env hdr ''Content-Type'' ''application/octet-stream''
                  else hdr);
           reqMetadata = \<lparr>bucketName = bucket, objectName = object, customHeader = hdr,
                          contentBody = rd, contentLength = sz,
                          contentMD5Bytes = md5Sum, contentSHA256Bytes = sha256Sum\<rparr>;
           tr' = tr @ [ExecuteMethod ''PUT'' reqMetadata]
       in (case executeMethod env c ''PUT'' reqMetadata of
             (_, Some err) \<Rightarrow> (Return (emptyObjectInfo, Some err), tr')
           | (None, None) \<Rightarrow> (Panic, tr')
           | (Some resp, None) \<Rightarrow>
               if StatusCode resp \<noteq> 200
               then (Return (emptyObjectInfo,
                             Some (httpRespToErrorResponse resp bucket object)), tr')
               else (Return (\<lparr>ObjectInfo.ETag =
                                 TrimSuffix (TrimPrefix (Header_Get env (Header resp) ''ETag'')
                                                        [CHR 0x22]) [CHR 0x22],
                               ObjectInfo.Size = sz\<rparr>, None), tr'))))"

text \<open>
  putObjectNoChecksum special function used Google Cloud Storage. This special function is
  used for Google Cloud Storage since Google's multipart API is not S3 compatible.
\<close>

definition putObjectNoChecksum ::
  "'r env \<Rightarrow> Client \<Rightarrow> string \<Rightarrow> string \<Rightarrow> 'r \<Rightarrow> int64 \<Rightarrow> metadata \<Rightarrow> 'r option \<Rightarrow> 'r call list
    \<Rightarrow> (int64 \<times> error option) outcome \<times> 'r call list"
where
  "putObjectNoChecksum env c bucket object rd sz metaData progress tr =
    (case CheckValidBucketName env bucket of
       Some err \<Rightarrow> (Return (0, Some err), tr)
     | None \<Rightarrow>
    (case CheckValidObjectName env object of
       Some err \<Rightarrow> (Return (0, Some err), tr)
     | None \<Rightarrow>
       if sz <s 0 \<and> \<not> IsGoogleEndpoint env (endpointURL c)
       then (Return (0, Some (ErrEntityTooSmall sz bucket object)), tr)
       else
         let rd' = (if 0 <s sz \<and> implementsReaderAt env rd
                    then NewSectionReader (Reader rd) 0 sz else Reader rd);
             readSeeker = newHook rd' progress
         in (case putObjectDo env c bucket object readSeeker None None sz metaData tr of
               (Panic, tr') \<Rightarrow> (Panic, tr')
             | (Blocked, tr') \<Rightarrow> (Blocked, tr')
             | (Return (st, Some err), tr') \<Rightarrow> (Return (0, Some err), tr')
             | (Return (st, None), tr') \<Rightarrow>
                 if ObjectInfo.Size st \<noteq> sz
                 then (Return (0, Some (ErrUnexpectedEOF (ObjectInfo.Size st) sz bucket object)), tr')
                 else (Return (sz, None), tr'))))"

section \<open>The sequential path\<close>

datatype loopExit =
  LoopReturn "int64 \<times> error option"
  | LoopDone int int64 "int \<rightharpoonup> ObjectPart"

text \<open>
  The part loop of putObjectMultipartStreamNoChecksum, from the value \<open>partNumber\<close> of its
  counter on. \<open>LoopReturn\<close> is a \<open>return\<close> inside the loop; \<open>LoopDone\<close> carries the counter,
  the uploaded total and the parts map with which the loop is left, by its condition or by
  \<open>break\<close>.
\<close>

function partLoop ::
  "'r env \<Rightarrow> Client \<Rightarrow> string \<Rightarrow> string \<Rightarrow> string \<Rightarrow> 'r \<Rightarrow> 'r option \<Rightarrow> int64 \<Rightarrow> int \<Rightarrow> int64
    \<Rightarrow> int \<Rightarrow> int64 \<Rightarrow> int64 \<Rightarrow> (int \<rightharpoonup> ObjectPart) \<Rightarrow> 'r call list \<Rightarrow> loopExit \<times> 'r call list"
where
  "partLoop env c bucket object uploadID rd progress sz totalPartsCount lastPartSize
      partNumber partSize totalUploadedSize partsInfo tr =
    (if partNumber \<le> totalPartsCount then
       let hookReader = newHook (Reader rd) progress;
           partSize = (if partNumber = totalPartsCount then lastPartSize else partSize);
           body = LimitReader hookReader partSize;
           tr' = tr @ [UploadPart bucket object uploadID body partNumber partSize]
       in (case uploadPart env c bucket object uploadID body partNumber partSize of
             Inl err \<Rightarrow>
               if err = EOF \<and> sz <s 0 then (LoopDone partNumber totalUploadedSize partsInfo, tr')
               else (LoopReturn (totalUploadedSize, Some err), tr')
           | Inr objPart \<Rightarrow>
               partLoop env c bucket object uploadID rd progress sz totalPartsCount lastPartSize
                 (partNumber + 1) partSize (totalUploadedSize + partSize)
                 (partsInfo(partNumber \<mapsto> objPart)) tr')
     else (LoopDone partNumber totalUploadedSize partsInfo, tr))"
  by pat_completeness auto
termination
  by (relation "measure (\<lambda>(env, c, bucket, object, uploadID, rd, progress, sz, totalPartsCount,
        lastPartSize, partNumber, rest). nat (totalPartsCount + 1 - partNumber))") auto

declare partLoop.simps [simp del]

definition toCompletePart :: "ObjectPart \<Rightarrow> CompletePart" where
  "toCompletePart part =
     \<lparr>CompletePart.PartNumber = ObjectPart.PartNumber part, CompletePart.ETag = ObjectPart.ETag part\<rparr>"

text \<open>The loop over the uploaded parts that fills the Parts array, from index \<open>i\<close> on.\<close>

function assembleParts ::
  "int \<Rightarrow> (int \<rightharpoonup> ObjectPart) \<Rightarrow> int \<Rightarrow> CompletePart list \<Rightarrow> error + CompletePart list"
where
  "assembleParts partNumber partsInfo i parts =
    (if i < partNumber then
       (case partsInfo i of
          None \<Rightarrow> Inl (ErrInvalidArgument (''Missing part number '' @ Sprintf_d i))
        | Some part \<Rightarrow> assembleParts partNumber partsInfo (i + 1) (parts @ [toCompletePart part]))
     else Inr parts)"
  by pat_completeness auto
termination
  by (relation "measure (\<lambda>(partNumber, partsInfo, i, parts). nat (partNumber - i))") auto

declare assembleParts.simps [simp del]

text \<open>
  Modelled from the spec: \<open>sort.Sort(completedParts(parts))\<close>. The type \<open>completedParts\<close>
  and its order are not in this source file; the spec says the list is sorted by part number.
\<close>

definition sortCompletedParts :: "CompletePart list \<Rightarrow> CompletePart list" where
  "sortCompletedParts parts = sort_key CompletePart.PartNumber parts"

text \<open>
  The end of both multipart paths: sort all completed parts, complete the multipart upload
  and return the final size.
\<close>

definition completeUpload ::
  "'r env \<Rightarrow> Client \<Rightarrow> string \<Rightarrow> string \<Rightarrow> string \<Rightarrow> int64 \<Rightarrow> CompletePart list \<Rightarrow> 'r call list
    \<Rightarrow> (int64 \<times> error option) \<times> 'r call list"
where
  "completeUpload env c bucket object uploadID totalUploadedSize parts tr =
    (let complMultipartUpload = \<lparr>Parts = sortCompletedParts parts\<rparr>;
         tr' = tr @ [CompleteMultipartUpload bucket object uploadID complMultipartUpload]
     in (case completeMultipartUpload env c bucket object uploadID complMultipartUpload of
           Some err \<Rightarrow> ((totalUploadedSize, Some err), tr')
         | None \<Rightarrow> ((totalUploadedSize, None), tr')))"

text \<open>
  putObjectMultipartStreamNoChecksum after its part loop: the check of the uploaded size,
  the Parts array, the completion.
\<close>

definition finishSequential ::
  "'r env \<Rightarrow> Client \<Rightarrow> string \<Rightarrow> string \<Rightarrow> string \<Rightarrow> int64 \<Rightarrow> int \<Rightarrow> int64
    \<Rightarrow> (int \<rightharpoonup> ObjectPart) \<Rightarrow> 'r call list \<Rightarrow> (int64 \<times> error option) \<times> 'r call list"
where
  "finishSequential env c bucket object uploadID sz partNumber totalUploadedSize partsInfo tr =
    (if 0 <s sz \<and> totalUploadedSize \<noteq> sz
     then ((totalUploadedSize, Some (ErrUnexpectedEOF totalUploadedSize sz bucket object)), tr)
     else
       (case assembleParts partNumber partsInfo 1 [] of
          Inl err \<Rightarrow> ((0, Some err), tr)
        | Inr parts \<Rightarrow> completeUpload env c bucket object uploadID totalUploadedSize parts tr))"

definition putObjectMultipartStreamNoChecksum ::
  "'r env \<Rightarrow> Client \<Rightarrow> string \<Rightarrow> string \<Rightarrow> 'r \<Rightarrow> int64 \<Rightarrow> metadata \<Rightarrow> 'r option \<Rightarrow> 'r call list
    \<Rightarrow> (int64 \<times> error option) \<times> 'r call list"
where
  "putObjectMultipartStreamNoChecksum env c bucket object rd sz metaData progress tr =
    (case CheckValidBucketName env bucket of
       Some err \<Rightarrow> ((0, Some err), tr)
     | None \<Rightarrow>
    (case CheckValidObjectName env object of
       Some err \<Rightarrow> ((0, Some err), tr)
     | None \<Rightarrow>
    (case newUploadID env c bucket object metaData of
       Inl err \<Rightarrow> ((0, Some err), tr @ [NewUploadID bucket object metaData])
     | Inr uploadID \<Rightarrow>
    (case optimalPartInfo env sz of
       Inl err \<Rightarrow> ((0, Some err), tr @ [NewUploadID bucket object metaData])
     | Inr (totalPartsCount, partSize, lastPartSize) \<Rightarrow>
    (case partLoop env c bucket object uploadID rd progress sz totalPartsCount lastPartSize
            1 partSize 0 Map.empty (tr @ [NewUploadID bucket object metaData]) of
       (LoopReturn r, tr') \<Rightarrow> (r, tr')
     | (LoopDone partNumber totalUploadedSize partsInfo, tr') \<Rightarrow>
         finishSequential env c bucket object uploadID sz partNumber totalUploadedSize
           partsInfo tr')))))"

section \<open>The concurrent path\<close>

text \<open>
  The byte range a worker computes for the request it has drawn when the captured variable
  \<open>partSize\<close> keeps the value it reads first: the read offset and the value of \<open>partSize\<close>
  with which it goes on.
\<close>

definition partRange :: "int64 \<Rightarrow> int64 \<Rightarrow> int \<Rightarrow> int64 \<Rightarrow> int \<Rightarrow> int64 \<times> int64" where
  "partRange sz lastPartSize lastPartNumber partSize partNum =
     (let readOffset = word_of_int (partNum - 1) * partSize
      in if partNum = lastPartNumber then (sz - lastPartSize, lastPartSize)
         else (readOffset, partSize))"

text \<open>
  The two results of \<open>objPart, err = c.uploadPart(\<dots>)\<close>: the part that is assigned to the
  worker's own \<open>objPart\<close> and the error that is assigned to the captured \<open>err\<close>.
\<close>

definition returnedPart ::
  "'r env \<Rightarrow> Client \<Rightarrow> string \<Rightarrow> string \<Rightarrow> string \<Rightarrow> 'r reader \<Rightarrow> int \<Rightarrow> int64 \<Rightarrow> ObjectPart"
where
  "returnedPart env c bucket object uploadID body p n =
     (case uploadPart env c bucket object uploadID body p n of
        Inl err \<Rightarrow> failedPart env c bucket object uploadID body p n
      | Inr part \<Rightarrow> part)"

definition returnedError ::
  "'r env \<Rightarrow> Client \<Rightarrow> string \<Rightarrow> string \<Rightarrow> string \<Rightarrow> 'r reader \<Rightarrow> int \<Rightarrow> int64 \<Rightarrow> error option"
where
  "returnedError env c bucket object uploadID body p n =
     (case uploadPart env c bucket object uploadID body p n of
        Inl err \<Rightarrow> Some err
      | Inr part \<Rightarrow> None)"

text \<open>
  putObjectMultipartStreamFromReadAt starts totalWorkers goroutines and then gathers their
  results. The goroutines share the two channels and, of the variables that the worker
  closures capture, the two that are written after the workers have started: \<open>partSize\<close>
  and \<open>err\<close>. Nothing in the source orders the accesses to these two. The model runs the
  goroutines step by step in any interleaving, and a step makes at most one access to what
  is shared: it receives, sends, reads one variable or writes one variable. A read returns
  what the last write before it wrote.

  The places of a worker, with what it holds in its own variables:
\<close>

datatype 'r wstatus =
  Idle
    \<comment> \<open>at the head of \<open>for uploadReq := range uploadPartsCh\<close>\<close>
  | Drawn uploadPartReq
    \<comment> \<open>before \<open>readOffset := int64(uploadReq.PartNum-1) * partSize\<close>\<close>
  | Offset uploadPartReq int64
    \<comment> \<open>holds readOffset, before \<open>if uploadReq.PartNum == lastPartNumber\<close>\<close>
  | Ranged uploadPartReq int64
    \<comment> \<open>before \<open>io.NewSectionReader(reader, readOffset, partSize)\<close>\<close>
  | Sectioned uploadPartReq "'r reader"
    \<comment> \<open>holds sectionReader, before the call of uploadPart, whose last argument is partSize\<close>
  | Uploading uploadPartReq "'r reader" int64
    \<comment> \<open>inside uploadPart\<close>
  | Returned uploadPartReq ObjectPart
    \<comment> \<open>objPart and err are assigned, before \<open>if err != nil\<close>\<close>
  | Failed
    \<comment> \<open>inside the if, before the result is built from err\<close>
  | Failing uploadedPartRes
    \<comment> \<open>holds the result, before it is sent and the goroutine returns\<close>
  | Succeeded uploadPartReq ObjectPart
    \<comment> \<open>after the if, before the successful part info is sent\<close>
  | Exited

text \<open>
  The places of the loop that gathers the responses, with its counter \<open>u\<close>,
  totalUploadedSize, the Parts gathered so far and the sizes already copied from the
  progress reader:
\<close>

datatype 'r cstatus =
  Receiving int int64 "CompletePart list" "int64 list"
    \<comment> \<open>at the head of the loop\<close>
  | Copying int int64 "CompletePart list" "int64 list" ObjectPart int64 'r
    \<comment> \<open>holds part, uploadRes.Size and the progress reader, before io.CopyN\<close>
  | Copied int int64 "CompletePart list" "int64 list" ObjectPart
    \<comment> \<open>the error of io.CopyN is assigned to err, before \<open>err != nil\<close>\<close>
  | Completing int64
    \<comment> \<open>the error of completeMultipartUpload is assigned to err, before \<open>if err != nil\<close>\<close>
  | Returning int64
    \<comment> \<open>inside one of these two ifs, before \<open>return totalUploadedSize, err\<close>\<close>
  | Done "int64 \<times> error option"
    \<comment> \<open>the function has returned\<close>

text \<open>
  The state the goroutines share and the places they are at. \<open>uploadedPartsCh\<close> holds the
  results sent and not yet received, oldest first. \<open>received\<close> and \<open>calls\<close> are records of
  what has happened (the results the gathering loop has taken from the channel, the
  requests made to the service); no step reads them.
\<close>

record 'r pool =
  uploadPartsCh :: "uploadPartReq list"
  uploadedPartsCh :: "uploadedPartRes list"
  received :: "uploadedPartRes list"
  partSizeVar :: int64
  errVar :: "error option"
  workers :: "'r wstatus list"
  collector :: "'r cstatus"
  calls :: "'r call list"

text \<open>
  One step of worker \<open>w\<close>; the workers are numbered from 0 in the order in which they are
  started. uploadPartsCh is closed before the workers start, so a receive on the empty
  channel ends the loop. With at most 10000 parts no send on uploadedPartsCh blocks.
\<close>

definition workerStep ::
  "'r env \<Rightarrow> Client \<Rightarrow> string \<Rightarrow> string \<Rightarrow> string \<Rightarrow> 'r \<Rightarrow> int64 \<Rightarrow> int64 \<Rightarrow> int \<Rightarrow> nat \<Rightarrow> 'r pool
    \<Rightarrow> 'r pool"
where
  "workerStep env c bucket object uploadID rd sz lastPartSize lastPartNumber w st =
    (if length (workers st) \<le> w then st
     else
      (case workers st ! w of
         Exited \<Rightarrow> st
       | Idle \<Rightarrow>
           (case uploadPartsCh st of
              [] \<Rightarrow> st\<lparr>workers := (workers st)[w := Exited]\<rparr>
            | uploadReq # rest \<Rightarrow>
                st\<lparr>uploadPartsCh := rest, workers := (workers st)[w := Drawn uploadReq]\<rparr>)
       | Drawn uploadReq \<Rightarrow>
           st\<lparr>workers := (workers st)
                [w := Offset uploadReq
                        (word_of_int (uploadPartReq.PartNum uploadReq - 1) * partSizeVar st)]\<rparr>
       | Offset uploadReq readOffset \<Rightarrow>
           if uploadPartReq.PartNum uploadReq = lastPartNumber
           then st\<lparr>partSizeVar := lastPartSize,
                   workers := (workers st)[w := Ranged uploadReq (sz - lastPartSize)]\<rparr>
           else st\<lparr>workers := (workers st)[w := Ranged uploadReq readOffset]\<rparr>
       | Ranged uploadReq readOffset \<Rightarrow>
           st\<lparr>workers := (workers st)
                [w := Sectioned uploadReq
                        (NewSectionReader (Reader rd) readOffset (partSizeVar st))]\<rparr>
       | Sectioned uploadReq sectionReader \<Rightarrow>
           st\<lparr>workers := (workers st)[w := Uploading uploadReq sectionReader (partSizeVar st)],
               calls := calls st @ [UploadPart bucket object uploadID sectionReader
                                      (uploadPartReq.PartNum uploadReq) (partSizeVar st)]\<rparr>
       | Uploading uploadReq sectionReader partSize \<Rightarrow>
           st\<lparr>errVar := returnedError env c bucket object uploadID sectionReader
                          (uploadPartReq.PartNum uploadReq) partSize,
               workers := (workers st)
                [w := Returned uploadReq
                        (returnedPart env c bucket object uploadID sectionReader
                           (uploadPartReq.PartNum uploadReq) partSize)]\<rparr>
       | Returned uploadReq objPart \<Rightarrow>
           (case errVar st of
              Some err \<Rightarrow> st\<lparr>workers := (workers st)[w := Failed]\<rparr>
            | None \<Rightarrow> st\<lparr>workers := (workers st)[w := Succeeded uploadReq objPart]\<rparr>)
       | Failed \<Rightarrow>
           st\<lparr>workers := (workers st)
                [w := Failing \<lparr>Error = errVar st, uploadedPartRes.PartNum = 0,
                               uploadedPartRes.Size = 0, uploadedPartRes.Part = None\<rparr>]\<rparr>
       | Failing uploadRes \<Rightarrow>
           st\<lparr>uploadedPartsCh := uploadedPartsCh st @ [uploadRes],
               workers := (workers st)[w := Exited]\<rparr>
       | Succeeded uploadReq objPart \<Rightarrow>
           st\<lparr>uploadedPartsCh := uploadedPartsCh st @
                  [\<lparr>Error = None, uploadedPartRes.PartNum = uploadPartReq.PartNum uploadReq,
                    uploadedPartRes.Size = ObjectPart.Size objPart,
                    uploadedPartRes.Part = Some objPart\<rparr>],
               workers := (workers st)[w := Idle]\<rparr>))"

text \<open>
  One step of the goroutine that runs putObjectMultipartStreamFromReadAt itself, from the
  loop that gathers the responses on. At the head of the loop it receives a result (on an
  empty channel it waits: the step changes nothing) or, when the counter has passed
  totalPartsCount, verifies the uploaded size, sorts the parts and calls
  completeMultipartUpload. The test \<open>err != nil\<close> and the \<open>return totalUploadedSize, err\<close>
  behind it read \<open>err\<close> one after the other.
\<close>

definition collectorStep ::
  "'r env \<Rightarrow> Client \<Rightarrow> string \<Rightarrow> string \<Rightarrow> string \<Rightarrow> int64 \<Rightarrow> int \<Rightarrow> 'r option \<Rightarrow> 'r pool
    \<Rightarrow> 'r pool"
where
  "collectorStep env c bucket object uploadID sz totalPartsCount progress st =
    (case collector st of
       Done r \<Rightarrow> st
     | Receiving u totalUploadedSize parts copied \<Rightarrow>
         if u \<le> totalPartsCount then
           (case uploadedPartsCh st of
              [] \<Rightarrow> st
            | uploadRes # rest \<Rightarrow>
               (case Error uploadRes of
                  Some err \<Rightarrow>
                    st\<lparr>uploadedPartsCh := rest, received := received st @ [uploadRes],
                        collector := Done (totalUploadedSize, Some err)\<rparr>
                | None \<Rightarrow>
               (case uploadedPartRes.Part uploadRes of
                  None \<Rightarrow>
                    st\<lparr>uploadedPartsCh := rest, received := received st @ [uploadRes],
                        collector := Done (0, Some (ErrInvalidArgument
                          (''Missing part number ''
                             @ Sprintf_d (uploadedPartRes.PartNum uploadRes))))\<rparr>
                | Some part \<Rightarrow>
                    let totalUploadedSize = totalUploadedSize + uploadedPartRes.Size uploadRes
                    in (case progress of
                          None \<Rightarrow>
                            st\<lparr>uploadedPartsCh := rest, received := received st @ [uploadRes],
                                collector := Receiving (u + 1) totalUploadedSize
                                               (parts @ [toCompletePart part]) copied\<rparr>
                        | Some p \<Rightarrow>
                            st\<lparr>uploadedPartsCh := rest, received := received st @ [uploadRes],
                                collector := Copying u totalUploadedSize parts copied part
                                               (uploadedPartRes.Size uploadRes) p\<rparr>))))
         else if totalUploadedSize \<noteq> sz
         then st\<lparr>collector := Done (totalUploadedSize,
                     Some (ErrUnexpectedEOF totalUploadedSize sz bucket object))\<rparr>
         else
           let complMultipartUpload = \<lparr>Parts = sortCompletedParts parts\<rparr>
           in st\<lparr>errVar := completeMultipartUpload env c bucket object uploadID
                               complMultipartUpload,
                  calls := calls st @ [CompleteMultipartUpload bucket object uploadID
                                         complMultipartUpload],
                  collector := Completing totalUploadedSize\<rparr>
     | Copying u totalUploadedSize parts copied part n p \<Rightarrow>
         st\<lparr>errVar := CopyN env p copied n,
             collector := Copied u totalUploadedSize parts (copied @ [n]) part\<rparr>
     | Copied u totalUploadedSize parts copied part \<Rightarrow>
         (case errVar st of
            Some err \<Rightarrow> st\<lparr>collector := Returning totalUploadedSize\<rparr>
          | None \<Rightarrow>
              st\<lparr>collector := Receiving (u + 1) totalUploadedSize
                                 (parts @ [toCompletePart part]) copied\<rparr>)
     | Completing totalUploadedSize \<Rightarrow>
         (case errVar st of
            Some err \<Rightarrow> st\<lparr>collector := Returning totalUploadedSize\<rparr>
          | None \<Rightarrow> st\<lparr>collector := Done (totalUploadedSize, None)\<rparr>)
     | Returning totalUploadedSize \<Rightarrow>
         st\<lparr>collector := Done (totalUploadedSize, errVar st)\<rparr>)"

text \<open>
  The goroutines run in some interleaving: a schedule names, step by step, the goroutine
  that moves next.
\<close>

datatype agent = Collector | Worker nat

definition step ::
  "'r env \<Rightarrow> Client \<Rightarrow> string \<Rightarrow> string \<Rightarrow> string \<Rightarrow> 'r \<Rightarrow> int64 \<Rightarrow> int \<Rightarrow> int64 \<Rightarrow> 'r option
    \<Rightarrow> agent \<Rightarrow> 'r pool \<Rightarrow> 'r pool"
where
  "step env c bucket object uploadID rd sz totalPartsCount lastPartSize progress a st =
     (let lastPartNumber = totalPartsCount
      in case a of
           Collector \<Rightarrow> collectorStep env c bucket object uploadID sz totalPartsCount progress st
         | Worker w \<Rightarrow>
             workerStep env c bucket object uploadID rd sz lastPartSize lastPartNumber w st)"

definition runSchedule ::
  "'r env \<Rightarrow> Client \<Rightarrow> string \<Rightarrow> string \<Rightarrow> string \<Rightarrow> 'r \<Rightarrow> int64 \<Rightarrow> int \<Rightarrow> int64 \<Rightarrow> 'r option
    \<Rightarrow> agent list \<Rightarrow> 'r pool \<Rightarrow> 'r pool"
where
  "runSchedule env c bucket object uploadID rd sz totalPartsCount lastPartSize progress sched st =
     fold (step env c bucket object uploadID rd sz totalPartsCount lastPartSize progress) sched st"

text \<open>
  The pool when the workers are started: every part number is in \<open>uploadPartsCh\<close>, the
  totalWorkers goroutines are at the head of their loops, \<open>err\<close> is nil after the last test
  that read it, and the gathering loop starts at 1 with nothing uploaded.
\<close>

definition startPool :: "int \<Rightarrow> int \<Rightarrow> int64 \<Rightarrow> 'r call list \<Rightarrow> 'r pool" where
  "startPool nWorkers totalPartsCount partSize tr =
     \<lparr>uploadPartsCh =
        map (\<lambda>p. \<lparr>uploadPartReq.PartNum = p, uploadPartReq.Part = None\<rparr>) [1..totalPartsCount],
      uploadedPartsCh = [],
      received = [],
      partSizeVar = partSize,
      errVar = None,
      workers = replicate (nat nWorkers) Idle,
      collector = Receiving 1 0 [] [],
      calls = tr\<rparr>"

text \<open>The pool of a call of putObjectMultipartStreamFromReadAt after the schedule \<open>sched\<close>.\<close>

definition poolAfter ::
  "'r env \<Rightarrow> agent list \<Rightarrow> Client \<Rightarrow> string \<Rightarrow> string \<Rightarrow> string \<Rightarrow> 'r \<Rightarrow> int64 \<Rightarrow> int \<Rightarrow> int64
    \<Rightarrow> int64 \<Rightarrow> 'r option \<Rightarrow> 'r call list \<Rightarrow> 'r pool"
where
  "poolAfter env sched c bucket object uploadID rd sz totalPartsCount partSize lastPartSize
      progress tr =
     runSchedule env c bucket object uploadID rd sz totalPartsCount lastPartSize progress sched
       (startPool (totalWorkers env) totalPartsCount partSize tr)"

text \<open>
  What the function has returned in a pool, with the requests made so far. \<open>Blocked\<close>: it
  has not returned.
\<close>

definition returned :: "'r pool \<Rightarrow> (int64 \<times> error option) outcome \<times> 'r call list" where
  "returned st =
     (case collector st of
        Done r \<Rightarrow> (Return r, calls st)
      | _ \<Rightarrow> (Blocked, calls st))"

text \<open>
  putObjectMultipartFromReadAt - Uploads files bigger than 64MiB. Supports all readers
  which implements io.ReaderAt interface (ReadAt method). The channels hold 10000
  requests: with more parts the loop that sends the part numbers blocks before any worker
  is started. The schedule \<open>sched\<close> is the interleaving of the goroutines up to the moment
  the result is read off; \<open>Blocked\<close> says that the function has not returned by then.
\<close>

definition putObjectMultipartStreamFromReadAt ::
  "'r env \<Rightarrow> agent list \<Rightarrow> Client \<Rightarrow> string \<Rightarrow> string \<Rightarrow> 'r \<Rightarrow> int64 \<Rightarrow> metadata \<Rightarrow> 'r option
    \<Rightarrow> 'r call list \<Rightarrow> (int64 \<times> error option) outcome \<times> 'r call list"
where
  "putObjectMultipartStreamFromReadAt env sched c bucket object rd sz metaData progress tr =
    (case CheckValidBucketName env bucket of
       Some err \<Rightarrow> (Return (0, Some err), tr)
     | None \<Rightarrow>
    (case CheckValidObjectName env object of
       Some err \<Rightarrow> (Return (0, Some err), tr)
     | None \<Rightarrow>
    (case newUploadID env c bucket object metaData of
       Inl err \<Rightarrow> (Return (0, Some err), tr @ [NewUploadID bucket object metaData])
     | Inr uploadID \<Rightarrow>
    (case optimalPartInfo env sz of
       Inl err \<Rightarrow> (Return (0, Some err), tr @ [NewUploadID bucket object metaData])
     | Inr (totalPartsCount, partSize, lastPartSize) \<Rightarrow>
         if 10000 < totalPartsCount then (Blocked, tr @ [NewUploadID bucket object metaData])
         else
           returned
             (poolAfter env sched c bucket object uploadID rd sz totalPartsCount partSize
                lastPartSize progress (tr @ [NewUploadID bucket object metaData]))))))"

section \<open>The entry point\<close>

text \<open>
  The test on the error of the multipart path: error code AccessDenied with a message that
  contains Access Denied.
\<close>

definition multipartUnsupported :: "'r env \<Rightarrow> error \<Rightarrow> bool" where
  "multipartUnsupported env err =
     (let errResp = ToErrorResponse env err
      in Code errResp = ''AccessDenied'' \<and> strings_Contains (Message errResp) ''Access Denied'')"

text \<open>
  The multipart upload the entry point tries first: the concurrent path for a reader that
  is a *minio.Object, a *os.File or an io.ReaderAt, the sequential path otherwise. The type
  assertion \<open>reader.(io.ReaderAt)\<close> panics on a reader without ReadAt.
\<close>

definition multipartAttempt ::
  "'r env \<Rightarrow> agent list \<Rightarrow> Client \<Rightarrow> string \<Rightarrow> string \<Rightarrow> 'r \<Rightarrow> int64 \<Rightarrow> metadata \<Rightarrow> 'r option
    \<Rightarrow> 'r call list \<Rightarrow> (int64 \<times> error option) outcome \<times> 'r call list"
where
  "multipartAttempt env sched c bucket object rd sz metaData progress tr =
    (if isObject env rd \<or> isReadAt env rd \<or> isFile env rd
     then (if implementsReaderAt env rd
           then putObjectMultipartStreamFromReadAt env sched c bucket object rd sz
                  metaData progress tr
           else (Panic, tr))
     else (case putObjectMultipartStreamNoChecksum env c bucket object rd sz
                  metaData progress tr of
             (r, tr') \<Rightarrow> (Return r, tr')))"

text \<open>
  putObjectMultipartStream - upload a large object using multipart upload and streaming
  signature for signing payload.
\<close>

definition putObjectMultipartStream ::
  "'r env \<Rightarrow> agent list \<Rightarrow> Client \<Rightarrow> string \<Rightarrow> string \<Rightarrow> 'r \<Rightarrow> int64 \<Rightarrow> metadata \<Rightarrow> 'r option
    \<Rightarrow> 'r call list \<Rightarrow> (int64 \<times> error option) outcome \<times> 'r call list"
where
  "putObjectMultipartStream env sched c0 bucket object rd sz metaData progress tr =
    (let c = c0\<lparr>overrideSignerType := SignatureV4Streaming\<rparr>
     in (case multipartAttempt env sched c bucket object rd sz metaData progress tr of
           (Return (n, Some err), tr') \<Rightarrow>
             if multipartUnsupported env err
             then (if maxSinglePutObjectSize env <s sz
                   then (Return (0, Some (ErrEntityTooLarge sz (maxSinglePutObjectSize env)
                                            bucket object)), tr')
                   else putObjectNoChecksum env c bucket object rd sz metaData progress tr')
             else (Return (n, Some err), tr')
         | (Return (n, None), tr') \<Rightarrow> (Return (n, None), tr')
         | (Panic, tr') \<Rightarrow> (Panic, tr')
         | (Blocked, tr') \<Rightarrow> (Blocked, tr')))"

section \<open>The plan of the sequential path\<close>

text \<open>
  The size the sequential path plans for part \<open>p\<close>: partSize, or lastPartSize for the
  final part; the reader it hands to uploadPart for a part of that size; the result of that
  upload and the request it makes.
\<close>

definition plannedSize :: "int \<Rightarrow> int64 \<Rightarrow> int64 \<Rightarrow> int \<Rightarrow> int64" where
  "plannedSize totalPartsCount partSize lastPartSize p =
     (if p = totalPartsCount then lastPartSize else partSize)"

definition sequentialBody :: "'r \<Rightarrow> 'r option \<Rightarrow> int64 \<Rightarrow> 'r reader" where
  "sequentialBody rd progress n = LimitReader (newHook (Reader rd) progress) n"

definition sequentialUpload ::
  "'r env \<Rightarrow> Client \<Rightarrow> string \<Rightarrow> string \<Rightarrow> string \<Rightarrow> 'r \<Rightarrow> 'r option \<Rightarrow> int \<Rightarrow> int64 \<Rightarrow> int64
    \<Rightarrow> int \<Rightarrow> error + ObjectPart"
where
  "sequentialUpload env c bucket object uploadID rd progress totalPartsCount partSize
      lastPartSize p =
     uploadPart env c bucket object uploadID
       (sequentialBody rd progress (plannedSize totalPartsCount partSize lastPartSize p)) p
       (plannedSize totalPartsCount partSize lastPartSize p)"

definition sequentialCall ::
  "string \<Rightarrow> string \<Rightarrow> string \<Rightarrow> 'r \<Rightarrow> 'r option \<Rightarrow> int \<Rightarrow> int64 \<Rightarrow> int64 \<Rightarrow> int \<Rightarrow> 'r call"
where
  "sequentialCall bucket object uploadID rd progress totalPartsCount partSize lastPartSize p =
     UploadPart bucket object uploadID
       (sequentialBody rd progress (plannedSize totalPartsCount partSize lastPartSize p)) p
       (plannedSize totalPartsCount partSize lastPartSize p)"

section \<open>Invariants of the pool\<close>

text \<open>
  A worker is busy while it holds a request whose result it has not sent. From each such
  place the worker is a fixed number of its own steps away from the send, at most
  \<open>stepsToSend\<close>.
\<close>

fun busy :: "'r wstatus \<Rightarrow> bool" where
  "busy Idle = False"
| "busy Exited = False"
| "busy _ = True"

fun stepsToSend :: "'r wstatus \<Rightarrow> nat" where
  "stepsToSend Idle = 0"
| "stepsToSend (Drawn uploadReq) = 8"
| "stepsToSend (Offset uploadReq readOffset) = 7"
| "stepsToSend (Ranged uploadReq readOffset) = 6"
| "stepsToSend (Sectioned uploadReq sectionReader) = 5"
| "stepsToSend (Uploading uploadReq sectionReader partSize) = 4"
| "stepsToSend (Returned uploadReq objPart) = 3"
| "stepsToSend Failed = 2"
| "stepsToSend (Failing uploadRes) = 1"
| "stepsToSend (Succeeded uploadReq objPart) = 1"
| "stepsToSend Exited = 0"

text \<open>
  The requests a pool accounts for: those waiting in uploadPartsCh, those a worker holds,
  and those whose result has been sent, be it still in uploadedPartsCh or received.
\<close>

definition accounted :: "'r pool \<Rightarrow> nat" where
  "accounted st =
     length (uploadPartsCh st) + length (filter busy (workers st))
     + length (uploadedPartsCh st) + length (received st)"

text \<open>
  No request is waiting and no worker holds one: what is left for a worker is to find
  uploadPartsCh empty and return.
\<close>

definition quiet :: "'r pool \<Rightarrow> bool" where
  "quiet st = (uploadPartsCh st = [] \<and> (\<forall>s \<in> set (workers st). \<not> busy s))"

text \<open>
  What the gathering loop holds in its variables, in terms of the results it has received:
  while it is in the loop, every result received carried a part and no error, the counter
  has counted them, totalUploadedSize is the sum of their sizes and Parts holds their
  parts in the order of arrival.
\<close>

definition accepted :: "uploadedPartRes list \<Rightarrow> bool" where
  "accepted rs = (\<forall>r \<in> set rs. Error r = None \<and> uploadedPartRes.Part r \<noteq> None)"

definition gatheredParts :: "uploadedPartRes list \<Rightarrow> CompletePart list" where
  "gatheredParts rs = map (\<lambda>r. toCompletePart (the (uploadedPartRes.Part r))) rs"

definition collectorInv :: "'r pool \<Rightarrow> bool" where
  "collectorInv st =
     (case collector st of
        Receiving u totalUploadedSize parts copied \<Rightarrow>
          u = 1 + int (length (received st)) \<and> accepted (received st)
          \<and> totalUploadedSize = sum_list (map uploadedPartRes.Size (received st))
          \<and> parts = gatheredParts (received st)
      | Copying u totalUploadedSize parts copied part n p \<Rightarrow>
          u = int (length (received st)) \<and> received st \<noteq> [] \<and> accepted (received st)
          \<and> totalUploadedSize = sum_list (map uploadedPartRes.Size (received st))
          \<and> parts = gatheredParts (butlast (received st))
          \<and> uploadedPartRes.Part (last (received st)) = Some part
      | Copied u totalUploadedSize parts copied part \<Rightarrow>
          u = int (length (received st)) \<and> received st \<noteq> [] \<and> accepted (received st)
          \<and> totalUploadedSize = sum_list (map uploadedPartRes.Size (received st))
          \<and> parts = gatheredParts (butlast (received st))
          \<and> uploadedPartRes.Part (last (received st)) = Some part
      | Completing totalUploadedSize \<Rightarrow> True
      | Returning totalUploadedSize \<Rightarrow> True
      | Done r \<Rightarrow> True)"

text \<open>
  Every part in a result, sent or about to be sent, is the part that a call of uploadPart
  for the part number of the result returned, and the size of the result is the size of
  that part. A result without a part, which is what the branch of the failure sends, has
  the part number 0.
\<close>

definition fromUpload :: "'r env \<Rightarrow> int \<Rightarrow> ObjectPart \<Rightarrow> bool" where
  "fromUpload env p part =
     (\<exists>c bucket object uploadID body n.
        returnedPart env c bucket object uploadID body p n = part)"

definition heldFromUpload :: "'r env \<Rightarrow> 'r wstatus \<Rightarrow> bool" where
  "heldFromUpload env s =
     (case s of
        Returned uploadReq objPart \<Rightarrow> fromUpload env (uploadPartReq.PartNum uploadReq) objPart
      | Succeeded uploadReq objPart \<Rightarrow> fromUpload env (uploadPartReq.PartNum uploadReq) objPart
      | Failing uploadRes \<Rightarrow>
          uploadedPartRes.Part uploadRes = None \<and> uploadedPartRes.PartNum uploadRes = 0
      | _ \<Rightarrow> True)"

definition sentFromUpload :: "'r env \<Rightarrow> uploadedPartRes \<Rightarrow> bool" where
  "sentFromUpload env r =
     (case uploadedPartRes.Part r of
        None \<Rightarrow> uploadedPartRes.PartNum r = 0
      | Some part \<Rightarrow>
          uploadedPartRes.Size r = ObjectPart.Size part
          \<and> fromUpload env (uploadedPartRes.PartNum r) part)"

definition resultsFromUploads :: "'r env \<Rightarrow> 'r pool \<Rightarrow> bool" where
  "resultsFromUploads env st =
     ((\<forall>r \<in> set (uploadedPartsCh st). sentFromUpload env r)
      \<and> (\<forall>r \<in> set (received st). sentFromUpload env r)
      \<and> (\<forall>s \<in> set (workers st). heldFromUpload env s))"


section \<open>Example collaborators\<close>

text \<open>
  A service that accepts everything, a planner that cuts every object into a part of 5 and
  a part of 3 bytes, three workers, and an error classifier that reads the code and the
  message off \<open>OtherError\<close>. The reader \<open>''file''\<close> has ReadAt, every other reader is a plain
  stream. An upload that fails returns the zero ObjectPart with its error.
\<close>

definition exampleEnv :: "string env" where
  "exampleEnv =
    \<lparr>CheckValidBucketName =
       (\<lambda>b. if b = [] then Some (ErrInvalidArgument ''Bucket name cannot be empty'') else None),
     CheckValidObjectName =
       (\<lambda>ob. if ob = [] then Some (ErrInvalidArgument ''Object name cannot be empty'') else None),
     IsGoogleEndpoint = (\<lambda>u. u = ''storage.googleapis.com''),
     isObject = (\<lambda>r. False),
     isReadAt = (\<lambda>r. r = ''file''),
     isFile = (\<lambda>r. r = ''file''),
     implementsReaderAt = (\<lambda>r. r = ''file''),
     ToErrorResponse =
       (\<lambda>e. case e of OtherError code msg \<Rightarrow> \<lparr>Code = code, Message = msg\<rparr>
                     | _ \<Rightarrow> \<lparr>Code = [], Message = []\<rparr>),
     maxSinglePutObjectSize = 5368709120,
     totalWorkers = 3,
     optimalPartInfo = (\<lambda>sz. Inr (2, 5, 3)),
     newUploadID = (\<lambda>c b ob md. Inr ''upload-1''),
     uploadPart =
       (\<lambda>c b ob u r p s.
          Inr \<lparr>ObjectPart.PartNumber = p, ObjectPart.ETag = ''etag'', ObjectPart.Size = s\<rparr>),
     failedPart =
       (\<lambda>c b ob u r p s.
          \<lparr>ObjectPart.PartNumber = 0, ObjectPart.ETag = [], ObjectPart.Size = 0\<rparr>),
     completeMultipartUpload = (\<lambda>c b ob u cm. None),
     executeMethod = (\<lambda>c m req. (Some \<lparr>StatusCode = 200, Header = Map.empty\<rparr>, None)),
     CopyN = (\<lambda>p copied n. None),
     CanonicalMIMEHeaderKey = (\<lambda>k. k)\<rparr>"

definition exampleClient :: Client where
  "exampleClient = \<lparr>endpointURL = ''play.minio.io'', overrideSignerType = SignatureDefault\<rparr>"

definition googleClient :: Client where
  "googleClient =
     \<lparr>endpointURL = ''storage.googleapis.com'', overrideSignerType = SignatureDefault\<rparr>"

definition streamingClient :: Client where
  "streamingClient = exampleClient\<lparr>overrideSignerType := SignatureV4Streaming\<rparr>"

text \<open>The same service, failing on the first part.\<close>

definition firstPartFails :: "string env" where
  "firstPartFails =
     exampleEnv\<lparr>uploadPart :=
       (\<lambda>c b ob u r p s.
          if p = 1 then Inl (OtherError ''InternalError'' ''We encountered an internal error.'')
          else Inr \<lparr>ObjectPart.PartNumber = p, ObjectPart.ETag = ''etag'', ObjectPart.Size = s\<rparr>)\<rparr>"

text \<open>
  A stream of unknown size: the planner cuts it into three parts of 5 bytes, and the data
  ends before the third part.
\<close>

definition endsAtThirdPart :: "string env" where
  "endsAtThirdPart =
     exampleEnv\<lparr>optimalPartInfo := (\<lambda>sz. Inr (3, 5, 5)),
       uploadPart :=
       (\<lambda>c b ob u r p s.
          if p = 3 then Inl EOF
          else Inr \<lparr>ObjectPart.PartNumber = p, ObjectPart.ETag = ''etag'', ObjectPart.Size = s\<rparr>)\<rparr>"


text \<open>The same service, refusing the second part with an access-denied error.\<close>

definition secondPartDenied :: "string env" where
  "secondPartDenied =
     exampleEnv\<lparr>uploadPart :=
       (\<lambda>c b ob u r p s.
          if p = 2 then Inl (OtherError ''AccessDenied'' ''Access Denied.'')
          else Inr \<lparr>ObjectPart.PartNumber = p, ObjectPart.ETag = ''etag'', ObjectPart.Size = s\<rparr>)\<rparr>"

section \<open>The single-shot path: size guard and size check\<close>

lemma putObjectDo_size:
  "putObjectDo env c bucket object body md5Sum sha256Sum sz metaData tr = (Return (st, None), tr')
    \<Longrightarrow> ObjectInfo.Size st = sz"
  unfolding putObjectDo_def Let_def
  by (clarsimp split: option.splits prod.splits if_splits)

lemma putObjectDo_valid:
  "putObjectDo env c bucket object body md5Sum sha256Sum sz metaData tr = (Return (st, None), tr')
    \<Longrightarrow> CheckValidBucketName env bucket = None \<and> CheckValidObjectName env object = None"
  unfolding putObjectDo_def Let_def
  by (clarsimp split: option.splits prod.splits if_splits)

lemma putObjectDo_calls:
  assumes "CheckValidBucketName env bucket = None" and "CheckValidObjectName env object = None"
  shows "\<exists>hdr. snd (putObjectDo env c bucket object body md5Sum sha256Sum sz metaData tr)
           = tr @ [ExecuteMethod ''PUT''
                     \<lparr>bucketName = bucket, objectName = object, customHeader = hdr,
                       contentBody = body, contentLength = sz,
                       contentMD5Bytes = md5Sum, contentSHA256Bytes = sha256Sum\<rparr>]"
  using assms unfolding putObjectDo_def Let_def
  by (clarsimp split: option.splits prod.splits if_splits)

lemma putObjectNoChecksum_calls:
  assumes "CheckValidBucketName env bucket = None" and "CheckValidObjectName env object = None"
    and "\<not> (sz <s 0 \<and> \<not> IsGoogleEndpoint env (endpointURL c))"
  shows "snd (putObjectNoChecksum env c bucket object rd sz metaData progress tr)
          = snd (putObjectDo env c bucket object
                  (newHook (if 0 <s sz \<and> implementsReaderAt env rd
                            then NewSectionReader (Reader rd) 0 sz else Reader rd) progress)
                  None None sz metaData tr)"
proof -
  define body where "body = newHook (if 0 <s sz \<and> implementsReaderAt env rd
                            then NewSectionReader (Reader rd) 0 sz else Reader rd) progress"
  obtain r tr' where pd: "putObjectDo env c bucket object body None None sz metaData tr = (r, tr')"
    by (cases "putObjectDo env c bucket object body None None sz metaData tr")
  have "snd (putObjectNoChecksum env c bucket object rd sz metaData progress tr) = tr'"
    using assms pd unfolding putObjectNoChecksum_def Let_def body_def [symmetric]
    by (cases r) (auto split: option.splits prod.splits)
  then show ?thesis using pd by (simp add: body_def)
qed

lemma exampleEnv_single_shot:
  "putObjectNoChecksum exampleEnv c ''bucket'' ''object'' ''stream'' 8 [] None tr
     = (Return (8, None),
        tr @ [ExecuteMethod ''PUT''
           \<lparr>bucketName = ''bucket'', objectName = ''object'',
             customHeader = [''Content-Type'' \<mapsto> [''application/octet-stream'']],
             contentBody = newHook (Reader ''stream'') None, contentLength = 8,
             contentMD5Bytes = None, contentSHA256Bytes = None\<rparr>])"
  by (simp add: putObjectNoChecksum_def putObjectDo_def exampleEnv_def
        Header_Set_def Header_Get_def TrimPrefix_def TrimSuffix_def word_sless_alt)

text \<open>
  C8. In putObjectNoChecksum, once the bucket and object names have passed validation: a
  negative size on an endpoint that is not a Google endpoint fails with EntityTooSmall and
  no request has been issued (the list of calls is unchanged); a negative size on a Google
  endpoint goes on to the transfer, which issues one PUT whose body is the reader behind
  the progress hook and whose content length is the negative size.
\<close>

theorem putObjectNoChecksum_unknown_size:
  assumes "CheckValidBucketName env bucket = None" and "CheckValidObjectName env object = None"
    and "sz <s 0"
  shows "(\<not> IsGoogleEndpoint env (endpointURL c) \<longrightarrow>
            putObjectNoChecksum env c bucket object rd sz metaData progress tr
              = (Return (0, Some (ErrEntityTooSmall sz bucket object)), tr))
       \<and> (IsGoogleEndpoint env (endpointURL c) \<longrightarrow>
            (\<exists>hdr. snd (putObjectNoChecksum env c bucket object rd sz metaData progress tr)
              = tr @ [ExecuteMethod ''PUT''
                        \<lparr>bucketName = bucket, objectName = object, customHeader = hdr,
                          contentBody = newHook (Reader rd) progress, contentLength = sz,
                          contentMD5Bytes = None, contentSHA256Bytes = None\<rparr>]))"
proof (intro conjI impI)
  assume "\<not> IsGoogleEndpoint env (endpointURL c)"
  with assms show "putObjectNoChecksum env c bucket object rd sz metaData progress tr
              = (Return (0, Some (ErrEntityTooSmall sz bucket object)), tr)"
    by (simp add: putObjectNoChecksum_def)
next
  assume g: "IsGoogleEndpoint env (endpointURL c)"
  from assms(3) have n: "\<not> 0 <s sz"
    using signed.less_asym by blast
  show "\<exists>hdr. snd (putObjectNoChecksum env c bucket object rd sz metaData progress tr)
              = tr @ [ExecuteMethod ''PUT''
                        \<lparr>bucketName = bucket, objectName = object, customHeader = hdr,
                          contentBody = newHook (Reader rd) progress, contentLength = sz,
                          contentMD5Bytes = None, contentSHA256Bytes = None\<rparr>]"
    using putObjectNoChecksum_calls [OF assms(1,2), of sz c rd metaData progress tr]
      putObjectDo_calls [OF assms(1,2), of c "newHook (Reader rd) progress" None None sz metaData tr]
      g n by simp
qed

theorem putObjectNoChecksum_unknown_size_witness:
  "putObjectNoChecksum exampleEnv exampleClient ''bucket'' ''object'' ''stream'' (- 1) [] None []
     = (Return (0, Some (ErrEntityTooSmall (- 1) ''bucket'' ''object'')), [])
   \<and> (\<exists>hdr. snd (putObjectNoChecksum exampleEnv googleClient ''bucket'' ''object'' ''stream''
                    (- 1) [] None [])
         = [ExecuteMethod ''PUT''
              \<lparr>bucketName = ''bucket'', objectName = ''object'', customHeader = hdr,
                contentBody = newHook (Reader ''stream'') None, contentLength = - 1,
                contentMD5Bytes = None, contentSHA256Bytes = None\<rparr>])"
  using putObjectNoChecksum_unknown_size [of exampleEnv "''bucket''" "''object''" "- 1"
          exampleClient "''stream''" "[]" None "[]"]
        putObjectNoChecksum_unknown_size [of exampleEnv "''bucket''" "''object''" "- 1"
          googleClient "''stream''" "[]" None "[]"]
  by (simp add: exampleEnv_def exampleClient_def googleClient_def)

text \<open>
  C9. putObjectDo sets the Size of the ObjectInfo it returns on success to its size
  argument. So whenever the transfer that putObjectNoChecksum runs succeeds, the sizes
  agree and putObjectNoChecksum returns the size with no error: the branch that returns
  UnexpectedEOF is not taken.
\<close>

theorem putObjectNoChecksum_size_check_unreachable:
  assumes "putObjectDo env c bucket object
             (newHook (if 0 <s sz \<and> implementsReaderAt env rd
                       then NewSectionReader (Reader rd) 0 sz else Reader rd) progress)
             None None sz metaData tr = (Return (st, None), tr')"
    and "\<not> (sz <s 0 \<and> \<not> IsGoogleEndpoint env (endpointURL c))"
  shows "ObjectInfo.Size st = sz
       \<and> putObjectNoChecksum env c bucket object rd sz metaData progress tr = (Return (sz, None), tr')"
proof -
  have s: "ObjectInfo.Size st = sz" using assms(1) by (rule putObjectDo_size)
  have v: "CheckValidBucketName env bucket = None \<and> CheckValidObjectName env object = None"
    using assms(1) by (rule putObjectDo_valid)
  have "putObjectNoChecksum env c bucket object rd sz metaData progress tr = (Return (sz, None), tr')"
    using assms v s unfolding putObjectNoChecksum_def Let_def by auto
  with s show ?thesis by simp
qed

theorem putObjectNoChecksum_size_check_unreachable_witness:
  "putObjectNoChecksum exampleEnv exampleClient ''bucket'' ''object'' ''file'' 8 [] None []
     = (Return (8, None),
        [ExecuteMethod ''PUT''
           \<lparr>bucketName = ''bucket'', objectName = ''object'',
             customHeader = [''Content-Type'' \<mapsto> [''application/octet-stream'']],
             contentBody = newHook (NewSectionReader (Reader ''file'') 0 8) None,
             contentLength = 8, contentMD5Bytes = None, contentSHA256Bytes = None\<rparr>])"
proof -
  have d: "putObjectDo exampleEnv exampleClient ''bucket'' ''object''
             (newHook (if 0 <s (8 :: int64) \<and> implementsReaderAt exampleEnv ''file''
                       then NewSectionReader (Reader ''file'') 0 8 else Reader ''file'') None)
             None None 8 [] []
     = (Return (\<lparr>ObjectInfo.ETag = [], ObjectInfo.Size = 8\<rparr>, None),
        [ExecuteMethod ''PUT''
           \<lparr>bucketName = ''bucket'', objectName = ''object'',
             customHeader = [''Content-Type'' \<mapsto> [''application/octet-stream'']],
             contentBody = newHook (NewSectionReader (Reader ''file'') 0 8) None,
             contentLength = 8, contentMD5Bytes = None, contentSHA256Bytes = None\<rparr>])"
    by (simp add: putObjectDo_def exampleEnv_def Header_Set_def Header_Get_def
          TrimPrefix_def TrimSuffix_def word_sless_alt)
  have g: "\<not> ((8 :: int64) <s 0 \<and> \<not> IsGoogleEndpoint exampleEnv (endpointURL exampleClient))"
    by (simp add: word_sless_alt)
  show ?thesis
    using putObjectNoChecksum_size_check_unreachable [OF d g] by simp
qed

section \<open>The byte range of the last part\<close>

text \<open>
  A worker that takes its three steps from the request it has drawn to its section reader
  with no write to \<open>partSize\<close> by another goroutine in between computes the byte range
  \<open>partRange\<close>.
\<close>

lemma workerStep_partRange:
  assumes "w < length (workers st)" and "workers st ! w = Drawn uploadReq"
  shows "workerStep env c bucket object uploadID rd sz lastPartSize lastPartNumber w
           (workerStep env c bucket object uploadID rd sz lastPartSize lastPartNumber w
              (workerStep env c bucket object uploadID rd sz lastPartSize lastPartNumber w st))
         = (case partRange sz lastPartSize lastPartNumber (partSizeVar st)
                   (uploadPartReq.PartNum uploadReq) of
              (readOffset, partSize) \<Rightarrow>
                st\<lparr>partSizeVar := partSize,
                    workers := (workers st)
                      [w := Sectioned uploadReq
                              (NewSectionReader (Reader rd) readOffset partSize)]\<rparr>)"
  using assms by (simp add: workerStep_def partRange_def Let_def)

text \<open>
  C7. For a plan with (totalPartsCount - 1) * partSize + lastPartSize = size (in int64
  arithmetic), the range the worker computes for the last part number, whose offset is
  size - lastPartSize, is the range of the general formula: offset
  (lastPartNumber - 1) * partSize and length lastPartSize.
\<close>

theorem partRange_last_part:
  assumes "word_of_int (totalPartsCount - 1) * partSize + lastPartSize = sz"
  shows "partRange sz lastPartSize totalPartsCount partSize totalPartsCount
           = (word_of_int (totalPartsCount - 1) * partSize, lastPartSize)"
  using assms by (auto simp: partRange_def)

theorem partRange_last_part_witness:
  "word_of_int (2 - 1) * (5 :: int64) + 3 = 8
   \<and> partRange 8 3 2 5 2 = (word_of_int (2 - 1) * 5, 3)"
  using partRange_last_part [of 2 5 3 8] by simp

section \<open>The fallback to a single PutObject\<close>

lemma secondPartDenied_attempt:
  "multipartAttempt secondPartDenied [] streamingClient ''bucket'' ''object'' ''stream'' 8 [] None []
     = (Return (5, Some (OtherError ''AccessDenied'' ''Access Denied.'')),
        [NewUploadID ''bucket'' ''object'' [],
         UploadPart ''bucket'' ''object'' ''upload-1''
           (LimitReader (newHook (Reader ''stream'') None) 5) 1 5,
         UploadPart ''bucket'' ''object'' ''upload-1''
           (LimitReader (newHook (Reader ''stream'') None) 3) 2 3])"
  by (simp add: multipartAttempt_def putObjectMultipartStreamNoChecksum_def secondPartDenied_def
        exampleEnv_def partLoop.simps)

lemma secondPartDenied_unsupported:
  "multipartUnsupported secondPartDenied (OtherError ''AccessDenied'' ''Access Denied.'')"
  by (simp add: multipartUnsupported_def secondPartDenied_def exampleEnv_def)

lemma secondPartDenied_single_shot:
  "putObjectNoChecksum secondPartDenied c ''bucket'' ''object'' ''stream'' 8 [] None tr
     = putObjectNoChecksum exampleEnv c ''bucket'' ''object'' ''stream'' 8 [] None tr"
  by (simp add: putObjectNoChecksum_def putObjectDo_def secondPartDenied_def exampleEnv_def
        Header_Set_def Header_Get_def)

text \<open>
  C1 as the code has it. Whatever step of the multipart path returned the error (validation,
  initiation, planning, any part upload, the progress copy, the size check or the
  completion): if the error has code AccessDenied and a message containing Access Denied,
  the operation fails with EntityTooLarge when the size exceeds maxSinglePutObjectSize and
  otherwise is putObjectNoChecksum on the same reader, size, metadata and progress; every
  other result of the multipart path is returned as it is.
\<close>

theorem putObjectMultipartStream_fallback:
  assumes "multipartAttempt env sched (c\<lparr>overrideSignerType := SignatureV4Streaming\<rparr>)
             bucket object rd sz metaData progress tr = (Return (n, err), tr')"
  shows "putObjectMultipartStream env sched c bucket object rd sz metaData progress tr =
          (if (\<exists>e. err = Some e \<and> multipartUnsupported env e)
           then (if maxSinglePutObjectSize env <s sz
                 then (Return (0, Some (ErrEntityTooLarge sz (maxSinglePutObjectSize env)
                                          bucket object)), tr')
                 else putObjectNoChecksum env (c\<lparr>overrideSignerType := SignatureV4Streaming\<rparr>)
                        bucket object rd sz metaData progress tr')
           else (Return (n, err), tr'))"
  using assms unfolding putObjectMultipartStream_def Let_def
  by (cases err) simp_all

theorem putObjectMultipartStream_fallback_witness:
  "putObjectMultipartStream secondPartDenied [] exampleClient ''bucket'' ''object'' ''stream'' 8 [] None []
     = putObjectNoChecksum secondPartDenied streamingClient ''bucket'' ''object'' ''stream'' 8 [] None
        [NewUploadID ''bucket'' ''object'' [],
         UploadPart ''bucket'' ''object'' ''upload-1''
           (LimitReader (newHook (Reader ''stream'') None) 5) 1 5,
         UploadPart ''bucket'' ''object'' ''upload-1''
           (LimitReader (newHook (Reader ''stream'') None) 3) 2 3]"
  using putObjectMultipartStream_fallback [of secondPartDenied "[]" exampleClient
      "''bucket''" "''object''" "''stream''" 8 "[]" None "[]", folded streamingClient_def,
      OF secondPartDenied_attempt]
    secondPartDenied_unsupported
  by (simp add: secondPartDenied_def exampleEnv_def)

theorem fallback_after_first_part_counterexample:
  "newUploadID secondPartDenied streamingClient ''bucket'' ''object'' [] = Inr ''upload-1''
   \<and> uploadPart secondPartDenied streamingClient ''bucket'' ''object'' ''upload-1''
        (LimitReader (newHook (Reader ''stream'') None) 5) 1 5
       = Inr \<lparr>ObjectPart.PartNumber = 1, ObjectPart.ETag = ''etag'', ObjectPart.Size = 5\<rparr>
   \<and> putObjectMultipartStream secondPartDenied [] exampleClient ''bucket'' ''object'' ''stream'' 8 [] None []
       = (Return (8, None),
          [NewUploadID ''bucket'' ''object'' [],
           UploadPart ''bucket'' ''object'' ''upload-1''
             (LimitReader (newHook (Reader ''stream'') None) 5) 1 5,
           UploadPart ''bucket'' ''object'' ''upload-1''
             (LimitReader (newHook (Reader ''stream'') None) 3) 2 3,
           ExecuteMethod ''PUT''
             \<lparr>bucketName = ''bucket'', objectName = ''object'',
               customHeader = [''Content-Type'' \<mapsto> [''application/octet-stream'']],
               contentBody = newHook (Reader ''stream'') None, contentLength = 8,
               contentMD5Bytes = None, contentSHA256Bytes = None\<rparr>])"
proof -
  have "putObjectMultipartStream secondPartDenied [] exampleClient ''bucket'' ''object'' ''stream'' 8 [] None []
       = putObjectNoChecksum secondPartDenied streamingClient ''bucket'' ''object'' ''stream'' 8 [] None
        [NewUploadID ''bucket'' ''object'' [],
         UploadPart ''bucket'' ''object'' ''upload-1''
           (LimitReader (newHook (Reader ''stream'') None) 5) 1 5,
         UploadPart ''bucket'' ''object'' ''upload-1''
           (LimitReader (newHook (Reader ''stream'') None) 3) 2 3]"
    using secondPartDenied_attempt secondPartDenied_unsupported
    unfolding putObjectMultipartStream_def Let_def streamingClient_def [symmetric]
    by (simp add: secondPartDenied_def exampleEnv_def)
  then show ?thesis
    by (simp add: secondPartDenied_single_shot exampleEnv_single_shot)
       (simp add: secondPartDenied_def exampleEnv_def)
qed

section \<open>Every request is accounted for\<close>

text \<open>
  A step takes a request from uploadPartsCh into the hands of a worker, or its result from
  the worker into uploadedPartsCh, or from there to the gathering loop; no step makes a
  request or loses one.
\<close>

lemma busy_update:
  "w < length ws \<Longrightarrow>
   length (filter busy (ws[w := s])) + (if busy (ws ! w) then 1 else 0)
     = length (filter busy ws) + (if busy s then 1 else 0)"
proof (induction ws arbitrary: w)
  case Nil
  then show ?case by simp
next
  case (Cons a ws)
  show ?case
  proof (cases w)
    case 0
    then show ?thesis by simp
  next
    case (Suc v)
    with Cons.prems have "v < length ws" by simp
    from Cons.IH [OF this] Suc show ?thesis by simp
  qed
qed

lemma busy_update_same:
  "w < length ws \<Longrightarrow> busy (ws ! w) = busy s \<Longrightarrow>
   length (filter busy (ws[w := s])) = length (filter busy ws)"
  using busy_update [of w ws s] by (simp split: if_splits)

lemma busy_update_start:
  "w < length ws \<Longrightarrow> \<not> busy (ws ! w) \<Longrightarrow> busy s \<Longrightarrow>
   length (filter busy (ws[w := s])) = Suc (length (filter busy ws))"
  using busy_update [of w ws s] by simp

lemma busy_update_end:
  "w < length ws \<Longrightarrow> busy (ws ! w) \<Longrightarrow> \<not> busy s \<Longrightarrow>
   Suc (length (filter busy (ws[w := s]))) = length (filter busy ws)"
  using busy_update [of w ws s] by simp

lemma accounted_workerStep:
  "accounted (workerStep env c bucket object uploadID rd sz lastPartSize lastPartNumber w st)
     = accounted st"
proof (cases "length (workers st) \<le> w")
  case True
  then show ?thesis by (simp add: workerStep_def)
next
  case False
  then have w: "w < length (workers st)" by simp
  show ?thesis
  proof (cases "workers st ! w")
    case Idle
    then show ?thesis
      using w busy_update_same [OF w, of Exited] busy_update_start [OF w]
      by (cases "uploadPartsCh st") (simp_all add: workerStep_def accounted_def)
  next
    case (Drawn uploadReq)
    then show ?thesis
      using w busy_update_same [OF w] by (simp add: workerStep_def accounted_def)
  next
    case (Offset uploadReq readOffset)
    then show ?thesis
      using w busy_update_same [OF w] by (simp add: workerStep_def accounted_def)
  next
    case (Ranged uploadReq readOffset)
    then show ?thesis
      using w busy_update_same [OF w] by (simp add: workerStep_def accounted_def)
  next
    case (Sectioned uploadReq sectionReader)
    then show ?thesis
      using w busy_update_same [OF w] by (simp add: workerStep_def accounted_def)
  next
    case (Uploading uploadReq sectionReader partSize)
    then show ?thesis
      using w busy_update_same [OF w] by (simp add: workerStep_def accounted_def)
  next
    case (Returned uploadReq objPart)
    then show ?thesis
      using w busy_update_same [OF w]
      by (cases "errVar st") (simp_all add: workerStep_def accounted_def)
  next
    case Failed
    then show ?thesis
      using w busy_update_same [OF w] by (simp add: workerStep_def accounted_def)
  next
    case (Failing uploadRes)
    then show ?thesis
      using w busy_update_end [OF w, of Exited] by (simp add: workerStep_def accounted_def)
  next
    case (Succeeded uploadReq objPart)
    then show ?thesis
      using w busy_update_end [OF w, of Idle] by (simp add: workerStep_def accounted_def)
  next
    case Exited
    then show ?thesis using w by (simp add: workerStep_def)
  qed
qed

lemma accounted_collectorStep:
  "accounted (collectorStep env c bucket object uploadID sz totalPartsCount progress st)
     = accounted st"
  by (cases "collector st")
     (simp_all add: collectorStep_def accounted_def Let_def
        split: list.splits option.splits)

lemma accounted_step:
  "accounted (step env c bucket object uploadID rd sz totalPartsCount lastPartSize progress a st)
     = accounted st"
  by (cases a) (simp_all add: step_def accounted_workerStep accounted_collectorStep)

lemma accounted_runSchedule:
  "accounted (runSchedule env c bucket object uploadID rd sz totalPartsCount lastPartSize
                progress sched st) = accounted st"
  unfolding runSchedule_def
  by (induction sched arbitrary: st) (simp_all add: accounted_step)

lemma accounted_poolAfter:
  "accounted (poolAfter env sched c bucket object uploadID rd sz totalPartsCount partSize
                lastPartSize progress tr) = nat totalPartsCount"
proof -
  have "filter busy (replicate k Idle) = []" for k
    by (induction k) simp_all
  then have "accounted (startPool (totalWorkers env) totalPartsCount partSize tr)
               = nat totalPartsCount"
    by (simp add: accounted_def startPool_def)
  then show ?thesis
    by (simp add: poolAfter_def accounted_runSchedule)
qed

section \<open>What the gathering loop holds\<close>

text \<open>
  The workers do not touch the variables of the gathering loop, and every step of the loop
  keeps them in line with the results it has received.
\<close>

lemma workerStep_collector:
  "collector (workerStep env c bucket object uploadID rd sz lastPartSize lastPartNumber w st)
     = collector st"
  by (simp add: workerStep_def split: wstatus.splits list.splits option.splits)

lemma workerStep_received:
  "received (workerStep env c bucket object uploadID rd sz lastPartSize lastPartNumber w st)
     = received st"
  by (simp add: workerStep_def split: wstatus.splits list.splits option.splits)

lemma collectorInv_workerStep:
  "collectorInv st \<Longrightarrow>
   collectorInv (workerStep env c bucket object uploadID rd sz lastPartSize lastPartNumber w st)"
  unfolding collectorInv_def workerStep_collector workerStep_received .

lemma accepted_snoc:
  "accepted rs \<Longrightarrow> Error r = None \<Longrightarrow> uploadedPartRes.Part r = Some part
    \<Longrightarrow> accepted (rs @ [r])"
  by (simp add: accepted_def)

lemma gatheredParts_snoc:
  "uploadedPartRes.Part r = Some part \<Longrightarrow>
   gatheredParts (rs @ [r]) = gatheredParts rs @ [toCompletePart part]"
  by (simp add: gatheredParts_def)

lemma gatheredParts_last:
  assumes "rs \<noteq> []" and "uploadedPartRes.Part (last rs) = Some part"
  shows "gatheredParts (butlast rs) @ [toCompletePart part] = gatheredParts rs"
proof -
  from assms(1) have "rs = butlast rs @ [last rs]" by simp
  then have "gatheredParts rs = gatheredParts (butlast rs @ [last rs])" by simp
  also have "\<dots> = gatheredParts (butlast rs) @ [toCompletePart part]"
    using assms(2) by (rule gatheredParts_snoc)
  finally show ?thesis by simp
qed

lemma collectorInv_collectorStep:
  assumes "collectorInv st"
  shows "collectorInv (collectorStep env c bucket object uploadID sz totalPartsCount progress st)"
proof (cases "collector st")
  case (Receiving u tot parts copied)
  with assms have inv: "u = 1 + int (length (received st))" "accepted (received st)"
    "tot = sum_list (map uploadedPartRes.Size (received st))"
    "parts = gatheredParts (received st)"
    by (simp_all add: collectorInv_def)
  show ?thesis
  proof (cases "u \<le> totalPartsCount")
    case False
    with Receiving show ?thesis
      by (simp add: collectorStep_def collectorInv_def Let_def)
  next
    case True
    show ?thesis
    proof (cases "uploadedPartsCh st")
      case Nil
      with Receiving True assms show ?thesis by (simp add: collectorStep_def)
    next
      case (Cons r rest)
      show ?thesis
      proof (cases "Error r")
        case (Some err)
        with Receiving True Cons show ?thesis
          by (simp add: collectorStep_def collectorInv_def)
      next
        case None
        show ?thesis
        proof (cases "uploadedPartRes.Part r")
          case none: None
          with Receiving True Cons None show ?thesis
            by (simp add: collectorStep_def collectorInv_def)
        next
          case (Some part)
          note a = accepted_snoc [OF inv(2) None Some]
          note g = gatheredParts_snoc [OF Some, of "received st"]
          show ?thesis
          proof (cases progress)
            case none: None
            with Receiving True Cons None Some inv a g show ?thesis
              by (simp add: collectorStep_def collectorInv_def Let_def)
          next
            case some: (Some p)
            with Receiving True Cons None Some inv a show ?thesis
              by (simp add: collectorStep_def collectorInv_def Let_def)
          qed
        qed
      qed
    qed
  qed
next
  case (Copying u tot parts copied part n p)
  with assms show ?thesis
    by (simp add: collectorStep_def collectorInv_def)
next
  case (Copied u tot parts copied part)
  with assms have inv: "u = int (length (received st))" "received st \<noteq> []"
    "accepted (received st)" "tot = sum_list (map uploadedPartRes.Size (received st))"
    "parts = gatheredParts (butlast (received st))"
    "uploadedPartRes.Part (last (received st)) = Some part"
    by (simp_all add: collectorInv_def)
  show ?thesis
  proof (cases "errVar st")
    case None
    with Copied inv gatheredParts_last [OF inv(2,6)] show ?thesis
      by (simp add: collectorStep_def collectorInv_def)
  next
    case (Some err)
    with Copied show ?thesis
      by (simp add: collectorStep_def collectorInv_def)
  qed
next
  case (Completing tot)
  then show ?thesis
    by (cases "errVar st") (simp_all add: collectorStep_def collectorInv_def)
next
  case (Returning tot)
  then show ?thesis by (simp add: collectorStep_def collectorInv_def)
next
  case (Done r)
  with assms show ?thesis by (simp add: collectorStep_def)
qed

lemma collectorInv_step:
  "collectorInv st \<Longrightarrow>
   collectorInv (step env c bucket object uploadID rd sz totalPartsCount lastPartSize progress
                   a st)"
  by (cases a) (simp_all add: step_def collectorInv_workerStep collectorInv_collectorStep)

lemma collectorInv_runSchedule:
  "collectorInv st \<Longrightarrow>
   collectorInv (runSchedule env c bucket object uploadID rd sz totalPartsCount lastPartSize
                   progress sched st)"
  unfolding runSchedule_def
  by (induction sched arbitrary: st) (simp_all add: collectorInv_step)

lemma collectorInv_poolAfter:
  "collectorInv (poolAfter env sched c bucket object uploadID rd sz totalPartsCount partSize
                   lastPartSize progress tr)"
  unfolding poolAfter_def
  by (rule collectorInv_runSchedule)
     (simp add: collectorInv_def startPool_def accepted_def gatheredParts_def)

section \<open>Where the parts of the results come from\<close>

text \<open>
  The part of a result is the \<open>objPart\<close> of the worker that sent it, a variable of its own
  that no other goroutine writes.
\<close>

lemma held_update:
  "\<forall>s \<in> set ws. P s \<Longrightarrow> P s' \<Longrightarrow> \<forall>s \<in> set (ws[w := s']). P s"
  using set_update_subset_insert [of ws w s'] by auto

lemma heldFromUpload_simps:
  "heldFromUpload env Idle"
  "heldFromUpload env Exited"
  "heldFromUpload env Failed"
  "heldFromUpload env (Drawn uploadReq)"
  "heldFromUpload env (Offset uploadReq readOffset)"
  "heldFromUpload env (Ranged uploadReq readOffset)"
  "heldFromUpload env (Sectioned uploadReq sectionReader)"
  "heldFromUpload env (Uploading uploadReq sectionReader partSize)"
  "heldFromUpload env (Returned uploadReq objPart)
     = fromUpload env (uploadPartReq.PartNum uploadReq) objPart"
  "heldFromUpload env (Succeeded uploadReq objPart)
     = fromUpload env (uploadPartReq.PartNum uploadReq) objPart"
  "heldFromUpload env (Failing uploadRes)
     = (uploadedPartRes.Part uploadRes = None \<and> uploadedPartRes.PartNum uploadRes = 0)"
  by (simp_all add: heldFromUpload_def)

lemma resultsFromUploads_workerStep:
  assumes "resultsFromUploads env st"
  shows "resultsFromUploads env
           (workerStep env c bucket object uploadID rd sz lastPartSize lastPartNumber w st)"
proof (cases "length (workers st) \<le> w")
  case True
  with assms show ?thesis by (simp add: workerStep_def)
next
  case False
  then have w: "w < length (workers st)" by simp
  from assms have ch: "\<forall>r \<in> set (uploadedPartsCh st). sentFromUpload env r"
    and rc: "\<forall>r \<in> set (received st). sentFromUpload env r"
    and ws: "\<forall>s \<in> set (workers st). heldFromUpload env s"
    by (simp_all add: resultsFromUploads_def)
  from ws w have own: "heldFromUpload env (workers st ! w)" by simp
  have upd: "(\<forall>s \<in> set ((workers st)[w := s']). heldFromUpload env s) = True"
    if "heldFromUpload env s'" for s'
    using held_update [OF ws that] by simp
  show ?thesis
  proof (cases "workers st ! w")
    case Idle
    show ?thesis
    proof (cases "uploadPartsCh st")
      case Nil
      with Idle w ch rc show ?thesis
        by (simp add: workerStep_def resultsFromUploads_def heldFromUpload_simps upd)
    next
      case (Cons uploadReq rest)
      with Idle w ch rc show ?thesis
        by (simp add: workerStep_def resultsFromUploads_def heldFromUpload_simps upd)
    qed
  next
    case (Drawn uploadReq)
    with w ch rc show ?thesis
      by (simp add: workerStep_def resultsFromUploads_def heldFromUpload_simps upd)
  next
    case (Offset uploadReq readOffset)
    with w ch rc show ?thesis
      by (simp add: workerStep_def resultsFromUploads_def heldFromUpload_simps upd)
  next
    case (Ranged uploadReq readOffset)
    with w ch rc show ?thesis
      by (simp add: workerStep_def resultsFromUploads_def heldFromUpload_simps upd)
  next
    case (Sectioned uploadReq sectionReader)
    with w ch rc show ?thesis
      by (simp add: workerStep_def resultsFromUploads_def heldFromUpload_simps upd)
  next
    case (Uploading uploadReq sectionReader partSize)
    have "heldFromUpload env (Returned uploadReq
            (returnedPart env c bucket object uploadID sectionReader
               (uploadPartReq.PartNum uploadReq) partSize))"
      unfolding heldFromUpload_simps fromUpload_def by blast
    with Uploading w ch rc show ?thesis
      by (simp add: workerStep_def resultsFromUploads_def upd)
  next
    case (Returned uploadReq objPart)
    with own have "heldFromUpload env (Succeeded uploadReq objPart)"
      and "heldFromUpload env (Failed :: 'a wstatus)"
      by (simp_all add: heldFromUpload_simps)
    with Returned w ch rc show ?thesis
      by (cases "errVar st") (simp_all add: workerStep_def resultsFromUploads_def upd)
  next
    case Failed
    have "heldFromUpload env (Failing \<lparr>Error = errVar st, uploadedPartRes.PartNum = 0,
            uploadedPartRes.Size = 0, uploadedPartRes.Part = None\<rparr>)"
      by (simp add: heldFromUpload_simps)
    with Failed w ch rc show ?thesis
      by (simp add: workerStep_def resultsFromUploads_def upd)
  next
    case (Failing uploadRes)
    with own have "sentFromUpload env uploadRes"
      by (simp add: heldFromUpload_simps sentFromUpload_def)
    moreover have "heldFromUpload env (Exited :: 'a wstatus)"
      by (simp add: heldFromUpload_simps)
    ultimately show ?thesis
      using Failing w ch rc by (simp add: workerStep_def resultsFromUploads_def upd)
  next
    case (Succeeded uploadReq objPart)
    with own have "sentFromUpload env
        \<lparr>Error = None, uploadedPartRes.PartNum = uploadPartReq.PartNum uploadReq,
          uploadedPartRes.Size = ObjectPart.Size objPart, uploadedPartRes.Part = Some objPart\<rparr>"
      by (simp add: heldFromUpload_simps sentFromUpload_def)
    moreover have "heldFromUpload env (Idle :: 'a wstatus)"
      by (simp add: heldFromUpload_simps)
    ultimately show ?thesis
      using Succeeded w ch rc by (simp add: workerStep_def resultsFromUploads_def upd)
  next
    case Exited
    with w assms show ?thesis by (simp add: workerStep_def)
  qed
qed

lemma resultsFromUploads_collectorStep:
  assumes "resultsFromUploads env st"
  shows "resultsFromUploads env
           (collectorStep env c bucket object uploadID sz totalPartsCount progress st)"
  using assms
  by (cases "collector st")
     (auto simp: collectorStep_def resultsFromUploads_def Let_def
        split: list.splits option.splits)

lemma resultsFromUploads_step:
  "resultsFromUploads env st \<Longrightarrow>
   resultsFromUploads env
     (step env c bucket object uploadID rd sz totalPartsCount lastPartSize progress a st)"
  by (cases a)
     (simp_all add: step_def resultsFromUploads_workerStep resultsFromUploads_collectorStep)

lemma resultsFromUploads_runSchedule:
  "resultsFromUploads env st \<Longrightarrow>
   resultsFromUploads env
     (runSchedule env c bucket object uploadID rd sz totalPartsCount lastPartSize progress
        sched st)"
  unfolding runSchedule_def
  by (induction sched arbitrary: st) (simp_all add: resultsFromUploads_step)

lemma resultsFromUploads_poolAfter:
  "resultsFromUploads env
     (poolAfter env sched c bucket object uploadID rd sz totalPartsCount partSize lastPartSize
        progress tr)"
  unfolding poolAfter_def
  by (intro resultsFromUploads_runSchedule)
     (simp add: resultsFromUploads_def startPool_def heldFromUpload_simps)

section \<open>When every result has been received\<close>

text \<open>
  Once the gathering loop has counted totalPartsCount results, uploadPartsCh is empty and
  no worker holds a request: the steps left to the workers change nothing but their own
  places. And while a result waits in uploadedPartsCh, the loop has not counted them all.
\<close>

lemma quiet_workerStep:
  assumes "quiet st"
  shows "\<exists>ws. workerStep env c bucket object uploadID rd sz lastPartSize lastPartNumber w st
               = st\<lparr>workers := ws\<rparr>
            \<and> (\<forall>s \<in> set ws. \<not> busy s)"
proof (cases "length (workers st) \<le> w")
  case True
  with assms show ?thesis
    by (intro exI [of _ "workers st"]) (simp add: workerStep_def quiet_def)
next
  case False
  then have w: "w < length (workers st)" by simp
  from assms have q: "uploadPartsCh st = []" and nb: "\<forall>s \<in> set (workers st). \<not> busy s"
    by (simp_all add: quiet_def)
  from nb w have own: "\<not> busy (workers st ! w)" by simp
  show ?thesis
  proof (cases "workers st ! w")
    case Idle
    have "\<forall>s \<in> set ((workers st)[w := Exited]). \<not> busy s"
      using nb by (rule held_update) simp
    with Idle w q show ?thesis
      by (intro exI [of _ "(workers st)[w := Exited]"]) (simp add: workerStep_def)
  next
    case Exited
    with w nb show ?thesis
      by (intro exI [of _ "workers st"]) (simp add: workerStep_def)
  qed (use own in simp_all)
qed

lemma quiet_workers_run:
  assumes "quiet st"
  shows "\<exists>ws. runSchedule env c bucket object uploadID rd sz totalPartsCount lastPartSize
                progress (map Worker vs) st = st\<lparr>workers := ws\<rparr>
            \<and> (\<forall>s \<in> set ws. \<not> busy s)"
  using assms
proof (induction vs arbitrary: st)
  case Nil
  then show ?case
    by (intro exI [of _ "workers st"]) (simp add: runSchedule_def quiet_def)
next
  case (Cons v vs)
  from quiet_workerStep [OF Cons.prems, of env c bucket object uploadID rd sz lastPartSize
      totalPartsCount v]
  obtain ws where ws: "workerStep env c bucket object uploadID rd sz lastPartSize
      totalPartsCount v st = st\<lparr>workers := ws\<rparr>" "\<forall>s \<in> set ws. \<not> busy s"
    by blast
  from Cons.prems ws(2) have "quiet (st\<lparr>workers := ws\<rparr>)" by (simp add: quiet_def)
  from Cons.IH [OF this] obtain ws' where
    "runSchedule env c bucket object uploadID rd sz totalPartsCount lastPartSize
       progress (map Worker vs) (st\<lparr>workers := ws\<rparr>) = st\<lparr>workers := ws'\<rparr>"
    "\<forall>s \<in> set ws'. \<not> busy s"
    by auto
  with ws(1) show ?case
    by (intro exI [of _ ws']) (simp add: runSchedule_def step_def)
qed

lemma all_received_quiet:
  assumes acc: "accounted st = nat totalPartsCount" and inv: "collectorInv st"
    and col: "collector st = Receiving u tot parts copied" and u: "totalPartsCount < u"
  shows "quiet st \<and> uploadedPartsCh st = []"
proof -
  from inv col have "u = 1 + int (length (received st))" by (simp add: collectorInv_def)
  with u have "nat totalPartsCount \<le> length (received st)" by simp
  with acc have "length (uploadPartsCh st) = 0" "length (filter busy (workers st)) = 0"
    "length (uploadedPartsCh st) = 0"
    unfolding accounted_def by linarith+
  then show ?thesis by (simp add: quiet_def filter_empty_conv)
qed

lemma result_waiting_in_loop:
  assumes acc: "accounted st = nat totalPartsCount" and inv: "collectorInv st"
    and col: "collector st = Receiving u tot parts copied" and ch: "uploadedPartsCh st = r # rest"
  shows "u \<le> totalPartsCount"
proof -
  from inv col have "u = 1 + int (length (received st))" by (simp add: collectorInv_def)
  moreover from acc ch have "length (received st) < nat totalPartsCount"
    by (simp add: accounted_def)
  ultimately show ?thesis by simp
qed

section \<open>Runs of the concurrent path\<close>

text \<open>
  Past the validation, the initiation and the plan, what the function returns is read off
  the pool; a longer schedule runs on from the pool of the shorter one; and once the
  function has returned, no step changes what it returned.
\<close>

lemma FromReadAt_pool:
  assumes "CheckValidBucketName env bucket = None" and "CheckValidObjectName env object = None"
    and "newUploadID env c bucket object metaData = Inr uploadID"
    and "optimalPartInfo env sz = Inr (totalPartsCount, partSize, lastPartSize)"
    and "totalPartsCount \<le> 10000"
  shows "putObjectMultipartStreamFromReadAt env sched c bucket object rd sz metaData progress tr
          = returned
              (poolAfter env sched c bucket object uploadID rd sz totalPartsCount partSize
                 lastPartSize progress (tr @ [NewUploadID bucket object metaData]))"
  using assms by (simp add: putObjectMultipartStreamFromReadAt_def)

lemma poolAfter_append:
  "poolAfter env (sched @ later) c bucket object uploadID rd sz totalPartsCount partSize
      lastPartSize progress tr
     = runSchedule env c bucket object uploadID rd sz totalPartsCount lastPartSize progress later
         (poolAfter env sched c bucket object uploadID rd sz totalPartsCount partSize
            lastPartSize progress tr)"
  by (simp add: poolAfter_def runSchedule_def)

lemma runSchedule_Cons:
  "runSchedule env c bucket object uploadID rd sz totalPartsCount lastPartSize progress
      (a # sched) st
     = runSchedule env c bucket object uploadID rd sz totalPartsCount lastPartSize progress sched
         (step env c bucket object uploadID rd sz totalPartsCount lastPartSize progress a st)"
  by (simp add: runSchedule_def)

lemma runSchedule_append:
  "runSchedule env c bucket object uploadID rd sz totalPartsCount lastPartSize progress
      (sched @ later) st
     = runSchedule env c bucket object uploadID rd sz totalPartsCount lastPartSize progress later
         (runSchedule env c bucket object uploadID rd sz totalPartsCount lastPartSize progress
            sched st)"
  by (simp add: runSchedule_def)

lemma runSchedule_Nil:
  "runSchedule env c bucket object uploadID rd sz totalPartsCount lastPartSize progress [] st
     = st"
  by (simp add: runSchedule_def)

lemma step_Done:
  assumes "collector st = Done r"
  shows "collector (step env c bucket object uploadID rd sz totalPartsCount lastPartSize
                      progress a st) = Done r"
  using assms
  by (cases a) (simp_all add: step_def collectorStep_def workerStep_collector)

lemma runSchedule_Done:
  assumes "collector st = Done r"
  shows "collector (runSchedule env c bucket object uploadID rd sz totalPartsCount lastPartSize
                      progress sched st) = Done r"
  using assms
  by (induction sched arbitrary: st) (simp_all add: runSchedule_Nil runSchedule_Cons step_Done)

lemma collectorStep_error:
  assumes "collector st = Receiving u tot parts copied" and "u \<le> totalPartsCount"
    and "uploadedPartsCh st = r # rest" and "Error r = Some err"
  shows "collectorStep env c bucket object uploadID sz totalPartsCount progress st
           = st\<lparr>uploadedPartsCh := rest, received := received st @ [r],
                 collector := Done (tot, Some err)\<rparr>"
  using assms by (simp add: collectorStep_def)

section \<open>The first result with an error\<close>

lemmas pool_defs = poolAfter_def runSchedule_def step_def workerStep_def collectorStep_def
  startPool_def returnedPart_def returnedError_def upto.simps Let_def numeral_3_eq_3

text \<open>
  C5. In putObjectMultipartStreamFromReadAt, whatever the interleaving so far: when the
  gathering loop is at its head, having received the results \<open>received\<close> without returning,
  and the next result in uploadedPartsCh carries an error, its next step returns that error
  with totalUploadedSize, which is the sum of the sizes of the results received, all of them
  successful. Nothing else is waited for: the requests still in uploadPartsCh, the workers
  still uploading and the results behind the first one play no part, and whatever the
  goroutines do afterwards the function has returned this.
\<close>

theorem collector_returns_on_first_error:
  fixes env :: "'r env" and sched c bucket object uploadID rd sz totalPartsCount partSize
    lastPartSize progress tr metaData
  defines "P \<equiv> poolAfter env sched c bucket object uploadID rd sz totalPartsCount partSize
                  lastPartSize progress (tr @ [NewUploadID bucket object metaData])"
  assumes "CheckValidBucketName env bucket = None" and "CheckValidObjectName env object = None"
    and "newUploadID env c bucket object metaData = Inr uploadID"
    and "optimalPartInfo env sz = Inr (totalPartsCount, partSize, lastPartSize)"
    and "totalPartsCount \<le> 10000"
    and "collector P = Receiving u totalUploadedSize parts copied"
    and "uploadedPartsCh P = r # rest"
    and "Error r = Some err"
  shows "totalUploadedSize = sum_list (map uploadedPartRes.Size (received P))
       \<and> (\<forall>x \<in> set (received P). Error x = None)
       \<and> putObjectMultipartStreamFromReadAt env (sched @ [Collector]) c bucket object rd sz
            metaData progress tr
           = (Return (sum_list (map uploadedPartRes.Size (received P)), Some err), calls P)
       \<and> fst (putObjectMultipartStreamFromReadAt env (sched @ Collector # later) c bucket object
                 rd sz metaData progress tr)
           = Return (sum_list (map uploadedPartRes.Size (received P)), Some err)"
proof -
  have acc: "accounted P = nat totalPartsCount"
    unfolding P_def by (rule accounted_poolAfter)
  have inv: "collectorInv P"
    unfolding P_def by (rule collectorInv_poolAfter)
  from inv assms(7) have tot: "totalUploadedSize = sum_list (map uploadedPartRes.Size (received P))"
    and ok: "accepted (received P)"
    by (simp_all add: collectorInv_def)
  have u: "u \<le> totalPartsCount"
    using acc inv assms(7,8) by (rule result_waiting_in_loop)
  let ?stp = "step env c bucket object uploadID rd sz totalPartsCount lastPartSize progress"
  have st: "?stp Collector P
              = P\<lparr>uploadedPartsCh := rest, received := received P @ [r],
                  collector := Done (totalUploadedSize, Some err)\<rparr>"
    using collectorStep_error [OF assms(7) u assms(8,9)] by (simp add: step_def)
  have 1: "putObjectMultipartStreamFromReadAt env (sched @ [Collector]) c bucket object rd sz
            metaData progress tr = (Return (totalUploadedSize, Some err), calls P)"
    unfolding FromReadAt_pool [OF assms(2-6)] poolAfter_append P_def [symmetric]
      runSchedule_Cons runSchedule_Nil st
    by (simp add: returned_def)
  have "collector (runSchedule env c bucket object uploadID rd sz totalPartsCount lastPartSize
                     progress later (?stp Collector P)) = Done (totalUploadedSize, Some err)"
    by (rule runSchedule_Done) (simp add: st)
  then have 2: "fst (putObjectMultipartStreamFromReadAt env (sched @ Collector # later) c bucket
                  object rd sz metaData progress tr) = Return (totalUploadedSize, Some err)"
    unfolding FromReadAt_pool [OF assms(2-6)] poolAfter_append P_def [symmetric]
      runSchedule_Cons
    by (simp add: returned_def)
  from tot ok 1 2 show ?thesis by (simp add: accepted_def)
qed

lemma secondPartDenied_pool:
  "poolAfter secondPartDenied
     [Worker 0, Worker 0, Worker 0, Worker 0, Worker 0, Worker 0, Worker 0, Worker 0,
      Worker 0, Worker 0, Worker 0, Worker 0, Worker 0, Worker 0, Worker 0, Worker 0, Worker 0,
      Collector]
     streamingClient ''bucket'' ''object'' ''upload-1'' ''file'' 8 2 5 3 None
     [NewUploadID ''bucket'' ''object'' []]
   = \<lparr>uploadPartsCh = [],
      uploadedPartsCh =
        [\<lparr>Error = Some (OtherError ''AccessDenied'' ''Access Denied.''),
          uploadedPartRes.PartNum = 0, uploadedPartRes.Size = 0, uploadedPartRes.Part = None\<rparr>],
      received =
        [\<lparr>Error = None, uploadedPartRes.PartNum = 1, uploadedPartRes.Size = 5,
          uploadedPartRes.Part =
            Some \<lparr>ObjectPart.PartNumber = 1, ObjectPart.ETag = ''etag'', ObjectPart.Size = 5\<rparr>\<rparr>],
      partSizeVar = 3,
      errVar = Some (OtherError ''AccessDenied'' ''Access Denied.''),
      workers = [Exited, Idle, Idle],
      collector = Receiving 2 5 [\<lparr>CompletePart.PartNumber = 1, CompletePart.ETag = ''etag''\<rparr>] [],
      calls =
        [NewUploadID ''bucket'' ''object'' [],
         UploadPart ''bucket'' ''object'' ''upload-1''
           (NewSectionReader (Reader ''file'') 0 5) 1 5,
         UploadPart ''bucket'' ''object'' ''upload-1''
           (NewSectionReader (Reader ''file'') 5 3) 2 3]\<rparr>"
  by (simp add: pool_defs secondPartDenied_def exampleEnv_def toCompletePart_def)

theorem collector_returns_on_first_error_witness:
  "putObjectMultipartStreamFromReadAt secondPartDenied
     [Worker 0, Worker 0, Worker 0, Worker 0, Worker 0, Worker 0, Worker 0, Worker 0,
      Worker 0, Worker 0, Worker 0, Worker 0, Worker 0, Worker 0, Worker 0, Worker 0, Worker 0,
      Collector, Collector]
     streamingClient ''bucket'' ''object'' ''file'' 8 [] None []
   = (Return (5, Some (OtherError ''AccessDenied'' ''Access Denied.'')),
      [NewUploadID ''bucket'' ''object'' [],
       UploadPart ''bucket'' ''object'' ''upload-1''
         (NewSectionReader (Reader ''file'') 0 5) 1 5,
       UploadPart ''bucket'' ''object'' ''upload-1''
         (NewSectionReader (Reader ''file'') 5 3) 2 3])"
proof -
  have 1: "CheckValidBucketName secondPartDenied ''bucket'' = None"
    and 2: "CheckValidObjectName secondPartDenied ''object'' = None"
    and 3: "newUploadID secondPartDenied streamingClient ''bucket'' ''object'' [] = Inr ''upload-1''"
    and 4: "optimalPartInfo secondPartDenied 8 = Inr (2, 5, 3)"
    and 5: "(2 :: int) \<le> 10000"
    by (simp_all add: secondPartDenied_def exampleEnv_def)
  note T = collector_returns_on_first_error [OF 1 2 3 4 5,
      where sched = "[Worker 0, Worker 0, Worker 0, Worker 0, Worker 0, Worker 0, Worker 0,
        Worker 0, Worker 0, Worker 0, Worker 0, Worker 0, Worker 0, Worker 0, Worker 0, Worker 0,
        Worker 0, Collector]"
      and rd = "''file''" and progress = None and tr = "[]",
      unfolded append_Nil secondPartDenied_pool]
  show ?thesis
    using T [where u = 2 and totalUploadedSize = 5
        and parts = "[\<lparr>CompletePart.PartNumber = 1, CompletePart.ETag = ''etag''\<rparr>]"
        and copied = "[]" and rest = "[]"
        and r = "\<lparr>Error = Some (OtherError ''AccessDenied'' ''Access Denied.''),
                  uploadedPartRes.PartNum = 0, uploadedPartRes.Size = 0,
                  uploadedPartRes.Part = None\<rparr>"
        and err = "OtherError ''AccessDenied'' ''Access Denied.''"]
    by simp
qed

section \<open>One result for each request drawn\<close>

text \<open>
  C6 as the code has it. A step of a worker touches no other worker. A worker at the head
  of its loop takes exactly one request from uploadPartsCh and sends nothing, or finds the
  channel empty and returns. From there every step of its own brings it closer to its
  send, with uploadPartsCh and uploadedPartsCh untouched, and the send appends exactly one
  result to uploadedPartsCh. The return of uploadPart writes its error into \<open>err\<close>, and it
  is the value of \<open>err\<close> at the test behind it that chooses the result: with nil the part is
  sent and the worker is back at the head of its loop, ready for the next request;
  otherwise the failure is built, with the value that \<open>err\<close> has by then as its error, and
  sent, and the worker has returned, whatever uploadPartsCh still holds. So in every pool
  of the operation, the requests not in uploadPartsCh are those a worker holds and those
  with a result sent: one result for each, no more.
\<close>

theorem workerStep_one_result_per_request:
  fixes st :: "'r pool" and env :: "'r env" and c bucket object uploadID rd sz lastPartSize
    lastPartNumber w sched c' bucket' object' uploadID' rd' sz' totalPartsCount partSize'
    lastPartSize' progress tr
  defines "st' \<equiv> workerStep env c bucket object uploadID rd sz lastPartSize lastPartNumber w st"
    and "P \<equiv> poolAfter env sched c' bucket' object' uploadID' rd' sz' totalPartsCount partSize'
                lastPartSize' progress tr"
  assumes "w < length (workers st)"
  shows "(workers st ! w = Idle \<and> uploadPartsCh st = uploadReq # rest \<longrightarrow>
            st' = st\<lparr>uploadPartsCh := rest, workers := (workers st)[w := Drawn uploadReq]\<rparr>)
       \<and> (1 < stepsToSend (workers st ! w) \<longrightarrow>
            uploadPartsCh st' = uploadPartsCh st \<and> uploadedPartsCh st' = uploadedPartsCh st
            \<and> workers st' = (workers st)[w := workers st' ! w] \<and> busy (workers st' ! w)
            \<and> stepsToSend (workers st' ! w) < stepsToSend (workers st ! w))
       \<and> (workers st ! w = Uploading uploadReq sectionReader partSize \<longrightarrow>
            st' = st\<lparr>errVar := returnedError env c bucket object uploadID sectionReader
                                  (uploadPartReq.PartNum uploadReq) partSize,
                     workers := (workers st)
                       [w := Returned uploadReq
                               (returnedPart env c bucket object uploadID sectionReader
                                  (uploadPartReq.PartNum uploadReq) partSize)]\<rparr>)
       \<and> (workers st ! w = Returned uploadReq objPart \<longrightarrow>
            st' = st\<lparr>workers := (workers st)
                       [w := (case errVar st of None \<Rightarrow> Succeeded uploadReq objPart
                                              | Some err \<Rightarrow> Failed)]\<rparr>)
       \<and> (workers st ! w = Failed \<longrightarrow>
            st' = st\<lparr>workers := (workers st)
                       [w := Failing \<lparr>Error = errVar st, uploadedPartRes.PartNum = 0,
                                      uploadedPartRes.Size = 0,
                                      uploadedPartRes.Part = None\<rparr>]\<rparr>)
       \<and> (workers st ! w = Succeeded uploadReq objPart \<longrightarrow>
            st' = st\<lparr>uploadedPartsCh := uploadedPartsCh st @
                        [\<lparr>Error = None,
                          uploadedPartRes.PartNum = uploadPartReq.PartNum uploadReq,
                          uploadedPartRes.Size = ObjectPart.Size objPart,
                          uploadedPartRes.Part = Some objPart\<rparr>],
                     workers := (workers st)[w := Idle]\<rparr>)
       \<and> (workers st ! w = Failing uploadRes \<longrightarrow>
            st' = st\<lparr>uploadedPartsCh := uploadedPartsCh st @ [uploadRes],
                     workers := (workers st)[w := Exited]\<rparr>)
       \<and> (workers st ! w = Idle \<and> uploadPartsCh st = [] \<longrightarrow>
            st' = st\<lparr>workers := (workers st)[w := Exited]\<rparr>)
       \<and> (workers st ! w = Exited \<longrightarrow> st' = st)
       \<and> length (uploadPartsCh P) + length (filter busy (workers P))
            + length (uploadedPartsCh P) + length (received P) = nat totalPartsCount"
proof -
  have 1: "workers st ! w = Idle \<and> uploadPartsCh st = uploadReq # rest \<longrightarrow>
            st' = st\<lparr>uploadPartsCh := rest, workers := (workers st)[w := Drawn uploadReq]\<rparr>"
    using assms(3) by (simp add: st'_def workerStep_def)
  have 2: "uploadPartsCh st' = uploadPartsCh st \<and> uploadedPartsCh st' = uploadedPartsCh st
            \<and> workers st' = (workers st)[w := workers st' ! w] \<and> busy (workers st' ! w)
            \<and> stepsToSend (workers st' ! w) < stepsToSend (workers st ! w)"
    if "1 < stepsToSend (workers st ! w)"
  proof (cases "workers st ! w")
    case (Returned uploadReq objPart)
    with assms(3) show ?thesis
      by (cases "errVar st") (simp_all add: st'_def workerStep_def)
  qed (use that assms(3) in \<open>simp_all add: st'_def workerStep_def\<close>)
  have 3: "workers st ! w = Returned uploadReq objPart \<longrightarrow>
            st' = st\<lparr>workers := (workers st)
                       [w := (case errVar st of None \<Rightarrow> Succeeded uploadReq objPart
                                              | Some err \<Rightarrow> Failed)]\<rparr>"
    using assms(3) by (cases "errVar st") (simp_all add: st'_def workerStep_def)
  have 9: "workers st ! w = Uploading uploadReq sectionReader partSize \<longrightarrow>
            st' = st\<lparr>errVar := returnedError env c bucket object uploadID sectionReader
                                  (uploadPartReq.PartNum uploadReq) partSize,
                     workers := (workers st)
                       [w := Returned uploadReq
                               (returnedPart env c bucket object uploadID sectionReader
                                  (uploadPartReq.PartNum uploadReq) partSize)]\<rparr>"
    using assms(3) by (simp add: st'_def workerStep_def)
  have 10: "workers st ! w = Failed \<longrightarrow>
            st' = st\<lparr>workers := (workers st)
                       [w := Failing \<lparr>Error = errVar st, uploadedPartRes.PartNum = 0,
                                      uploadedPartRes.Size = 0,
                                      uploadedPartRes.Part = None\<rparr>]\<rparr>"
    using assms(3) by (simp add: st'_def workerStep_def)
  have 4: "workers st ! w = Succeeded uploadReq objPart \<longrightarrow>
            st' = st\<lparr>uploadedPartsCh := uploadedPartsCh st @
                        [\<lparr>Error = None,
                          uploadedPartRes.PartNum = uploadPartReq.PartNum uploadReq,
                          uploadedPartRes.Size = ObjectPart.Size objPart,
                          uploadedPartRes.Part = Some objPart\<rparr>],
                     workers := (workers st)[w := Idle]\<rparr>"
    using assms(3) by (simp add: st'_def workerStep_def)
  have 5: "workers st ! w = Failing uploadRes \<longrightarrow>
            st' = st\<lparr>uploadedPartsCh := uploadedPartsCh st @ [uploadRes],
                     workers := (workers st)[w := Exited]\<rparr>"
    using assms(3) by (simp add: st'_def workerStep_def)
  have 6: "workers st ! w = Idle \<and> uploadPartsCh st = [] \<longrightarrow>
            st' = st\<lparr>workers := (workers st)[w := Exited]\<rparr>"
    using assms(3) by (simp add: st'_def workerStep_def)
  have 7: "workers st ! w = Exited \<longrightarrow> st' = st"
    using assms(3) by (simp add: st'_def workerStep_def)
  have 8: "length (uploadPartsCh P) + length (filter busy (workers P))
            + length (uploadedPartsCh P) + length (received P) = nat totalPartsCount"
    using accounted_poolAfter [of env sched c' bucket' object' uploadID' rd' sz' totalPartsCount
        partSize' lastPartSize' progress tr]
    by (simp add: accounted_def P_def)
  from 1 2 3 4 5 6 7 8 9 10 show ?thesis by blast
qed

lemma firstPartFails_pool:
  "poolAfter firstPartFails
     [Worker 0, Worker 0, Worker 0, Worker 0, Worker 0, Worker 0, Worker 0, Worker 0]
     streamingClient ''bucket'' ''object'' ''upload-1'' ''file'' 8 2 5 3 None
     [NewUploadID ''bucket'' ''object'' []]
   = \<lparr>uploadPartsCh = [\<lparr>uploadPartReq.PartNum = 2, uploadPartReq.Part = None\<rparr>],
      uploadedPartsCh = [],
      received = [],
      partSizeVar = 5,
      errVar = Some (OtherError ''InternalError'' ''We encountered an internal error.''),
      workers =
        [Failing \<lparr>Error = Some (OtherError ''InternalError''
                                   ''We encountered an internal error.''),
                   uploadedPartRes.PartNum = 0, uploadedPartRes.Size = 0,
                   uploadedPartRes.Part = None\<rparr>,
         Idle, Idle],
      collector = Receiving 1 0 [] [],
      calls =
        [NewUploadID ''bucket'' ''object'' [],
         UploadPart ''bucket'' ''object'' ''upload-1''
           (NewSectionReader (Reader ''file'') 0 5) 1 5]\<rparr>"
  by (simp add: pool_defs firstPartFails_def exampleEnv_def)

lemma exampleEnv_succeeded_pool:
  "poolAfter exampleEnv
     [Worker 0, Worker 0, Worker 0, Worker 0, Worker 0, Worker 0, Worker 0]
     streamingClient ''bucket'' ''object'' ''upload-1'' ''file'' 8 2 5 3 None
     [NewUploadID ''bucket'' ''object'' []]
   = \<lparr>uploadPartsCh = [\<lparr>uploadPartReq.PartNum = 2, uploadPartReq.Part = None\<rparr>],
      uploadedPartsCh = [],
      received = [],
      partSizeVar = 5,
      errVar = None,
      workers =
        [Succeeded \<lparr>uploadPartReq.PartNum = 1, uploadPartReq.Part = None\<rparr>
           \<lparr>ObjectPart.PartNumber = 1, ObjectPart.ETag = ''etag'', ObjectPart.Size = 5\<rparr>,
         Idle, Idle],
      collector = Receiving 1 0 [] [],
      calls =
        [NewUploadID ''bucket'' ''object'' [],
         UploadPart ''bucket'' ''object'' ''upload-1''
           (NewSectionReader (Reader ''file'') 0 5) 1 5]\<rparr>"
  by (simp add: pool_defs exampleEnv_def)

theorem workerStep_one_result_per_request_witness:
  "workerStep firstPartFails streamingClient ''bucket'' ''object'' ''upload-1'' ''file'' 8 3 2 0
     (poolAfter firstPartFails
        [Worker 0, Worker 0, Worker 0, Worker 0, Worker 0, Worker 0, Worker 0, Worker 0]
        streamingClient ''bucket'' ''object'' ''upload-1'' ''file'' 8 2 5 3 None
        [NewUploadID ''bucket'' ''object'' []])
   = \<lparr>uploadPartsCh = [\<lparr>uploadPartReq.PartNum = 2, uploadPartReq.Part = None\<rparr>],
      uploadedPartsCh =
        [\<lparr>Error = Some (OtherError ''InternalError'' ''We encountered an internal error.''),
          uploadedPartRes.PartNum = 0, uploadedPartRes.Size = 0, uploadedPartRes.Part = None\<rparr>],
      received = [],
      partSizeVar = 5,
      errVar = Some (OtherError ''InternalError'' ''We encountered an internal error.''),
      workers = [Exited, Idle, Idle],
      collector = Receiving 1 0 [] [],
      calls =
        [NewUploadID ''bucket'' ''object'' [],
         UploadPart ''bucket'' ''object'' ''upload-1''
           (NewSectionReader (Reader ''file'') 0 5) 1 5]\<rparr>
   \<and> workerStep exampleEnv streamingClient ''bucket'' ''object'' ''upload-1'' ''file'' 8 3 2 0
     (poolAfter exampleEnv
        [Worker 0, Worker 0, Worker 0, Worker 0, Worker 0, Worker 0, Worker 0]
        streamingClient ''bucket'' ''object'' ''upload-1'' ''file'' 8 2 5 3 None
        [NewUploadID ''bucket'' ''object'' []])
   = \<lparr>uploadPartsCh = [\<lparr>uploadPartReq.PartNum = 2, uploadPartReq.Part = None\<rparr>],
      uploadedPartsCh =
        [\<lparr>Error = None, uploadedPartRes.PartNum = 1, uploadedPartRes.Size = 5,
          uploadedPartRes.Part =
            Some \<lparr>ObjectPart.PartNumber = 1, ObjectPart.ETag = ''etag'', ObjectPart.Size = 5\<rparr>\<rparr>],
      received = [],
      partSizeVar = 5,
      errVar = None,
      workers = [Idle, Idle, Idle],
      collector = Receiving 1 0 [] [],
      calls =
        [NewUploadID ''bucket'' ''object'' [],
         UploadPart ''bucket'' ''object'' ''upload-1''
           (NewSectionReader (Reader ''file'') 0 5) 1 5]\<rparr>
   \<and> length (uploadPartsCh (poolAfter exampleEnv
        [Worker 0, Worker 0, Worker 0, Worker 0, Worker 0, Worker 0, Worker 0]
        streamingClient ''bucket'' ''object'' ''upload-1'' ''file'' 8 2 5 3 None
        [NewUploadID ''bucket'' ''object'' []]))
     + length (filter busy (workers (poolAfter exampleEnv
        [Worker 0, Worker 0, Worker 0, Worker 0, Worker 0, Worker 0, Worker 0]
        streamingClient ''bucket'' ''object'' ''upload-1'' ''file'' 8 2 5 3 None
        [NewUploadID ''bucket'' ''object'' []])))
     = nat 2"
proof -
  note T = workerStep_one_result_per_request [where c = streamingClient
      and bucket = "''bucket''" and object = "''object''" and uploadID = "''upload-1''"
      and rd = "''file''" and sz = 8 and lastPartSize = 3 and lastPartNumber = 2 and w = 0
      and sched = "[Worker 0, Worker 0, Worker 0, Worker 0, Worker 0, Worker 0, Worker 0]"
      and c' = streamingClient and bucket' = "''bucket''" and object' = "''object''"
      and uploadID' = "''upload-1''" and rd' = "''file''" and sz' = 8 and totalPartsCount = 2
      and partSize' = 5 and lastPartSize' = 3 and progress = None
      and tr = "[NewUploadID ''bucket'' ''object'' []]"]
  note F = T [where env = firstPartFails
      and st = "poolAfter firstPartFails
        [Worker 0, Worker 0, Worker 0, Worker 0, Worker 0, Worker 0, Worker 0, Worker 0]
        streamingClient ''bucket'' ''object'' ''upload-1'' ''file'' 8 2 5 3 None
        [NewUploadID ''bucket'' ''object'' []]"
      and uploadRes = "\<lparr>Error = Some (OtherError ''InternalError''
                                   ''We encountered an internal error.''),
                   uploadedPartRes.PartNum = 0, uploadedPartRes.Size = 0,
                   uploadedPartRes.Part = None\<rparr>",
      unfolded firstPartFails_pool]
  note S = T [where env = exampleEnv
      and st = "poolAfter exampleEnv
        [Worker 0, Worker 0, Worker 0, Worker 0, Worker 0, Worker 0, Worker 0]
        streamingClient ''bucket'' ''object'' ''upload-1'' ''file'' 8 2 5 3 None
        [NewUploadID ''bucket'' ''object'' []]"
      and uploadReq = "\<lparr>uploadPartReq.PartNum = 1, uploadPartReq.Part = None\<rparr>"
      and objPart = "\<lparr>ObjectPart.PartNumber = 1, ObjectPart.ETag = ''etag'',
                       ObjectPart.Size = 5\<rparr>",
      unfolded exampleEnv_succeeded_pool]
  from F have 1: "workerStep firstPartFails streamingClient ''bucket'' ''object'' ''upload-1''
                    ''file'' 8 3 2 0
     \<lparr>uploadPartsCh = [\<lparr>uploadPartReq.PartNum = 2, uploadPartReq.Part = None\<rparr>],
      uploadedPartsCh = [],
      received = [],
      partSizeVar = 5,
      errVar = Some (OtherError ''InternalError'' ''We encountered an internal error.''),
      workers =
        [Failing \<lparr>Error = Some (OtherError ''InternalError''
                                   ''We encountered an internal error.''),
                   uploadedPartRes.PartNum = 0, uploadedPartRes.Size = 0,
                   uploadedPartRes.Part = None\<rparr>,
         Idle, Idle],
      collector = Receiving 1 0 [] [],
      calls =
        [NewUploadID ''bucket'' ''object'' [],
         UploadPart ''bucket'' ''object'' ''upload-1''
           (NewSectionReader (Reader ''file'') 0 5) 1 5]\<rparr>
   = \<lparr>uploadPartsCh = [\<lparr>uploadPartReq.PartNum = 2, uploadPartReq.Part = None\<rparr>],
      uploadedPartsCh =
        [\<lparr>Error = Some (OtherError ''InternalError'' ''We encountered an internal error.''),
          uploadedPartRes.PartNum = 0, uploadedPartRes.Size = 0, uploadedPartRes.Part = None\<rparr>],
      received = [],
      partSizeVar = 5,
      errVar = Some (OtherError ''InternalError'' ''We encountered an internal error.''),
      workers = [Exited, Idle, Idle],
      collector = Receiving 1 0 [] [],
      calls =
        [NewUploadID ''bucket'' ''object'' [],
         UploadPart ''bucket'' ''object'' ''upload-1''
           (NewSectionReader (Reader ''file'') 0 5) 1 5]\<rparr>"
    by simp
  from S have 2: "workerStep exampleEnv streamingClient ''bucket'' ''object'' ''upload-1''
                    ''file'' 8 3 2 0
     \<lparr>uploadPartsCh = [\<lparr>uploadPartReq.PartNum = 2, uploadPartReq.Part = None\<rparr>],
      uploadedPartsCh = [],
      received = [],
      partSizeVar = 5,
      errVar = None,
      workers =
        [Succeeded \<lparr>uploadPartReq.PartNum = 1, uploadPartReq.Part = None\<rparr>
           \<lparr>ObjectPart.PartNumber = 1, ObjectPart.ETag = ''etag'', ObjectPart.Size = 5\<rparr>,
         Idle, Idle],
      collector = Receiving 1 0 [] [],
      calls =
        [NewUploadID ''bucket'' ''object'' [],
         UploadPart ''bucket'' ''object'' ''upload-1''
           (NewSectionReader (Reader ''file'') 0 5) 1 5]\<rparr>
   = \<lparr>uploadPartsCh = [\<lparr>uploadPartReq.PartNum = 2, uploadPartReq.Part = None\<rparr>],
      uploadedPartsCh =
        [\<lparr>Error = None, uploadedPartRes.PartNum = 1, uploadedPartRes.Size = 5,
          uploadedPartRes.Part =
            Some \<lparr>ObjectPart.PartNumber = 1, ObjectPart.ETag = ''etag'', ObjectPart.Size = 5\<rparr>\<rparr>],
      received = [],
      partSizeVar = 5,
      errVar = None,
      workers = [Idle, Idle, Idle],
      collector = Receiving 1 0 [] [],
      calls =
        [NewUploadID ''bucket'' ''object'' [],
         UploadPart ''bucket'' ''object'' ''upload-1''
           (NewSectionReader (Reader ''file'') 0 5) 1 5]\<rparr>"
    by simp
  from S have 3: "length [\<lparr>uploadPartReq.PartNum = (2 :: int), uploadPartReq.Part = None\<rparr>]
      + length (filter busy
          [Succeeded \<lparr>uploadPartReq.PartNum = 1, uploadPartReq.Part = None\<rparr>
             \<lparr>ObjectPart.PartNumber = 1, ObjectPart.ETag = ''etag'', ObjectPart.Size = 5\<rparr>,
           Idle, (Idle :: string wstatus)]) = nat 2"
    by simp
  show ?thesis
    unfolding firstPartFails_pool exampleEnv_succeeded_pool
    using 1 2 3 by simp
qed

theorem worker_exits_before_queue_drained_counterexample:
  "workers (poolAfter firstPartFails
       [Worker 0, Worker 0, Worker 0, Worker 0, Worker 0, Worker 0, Worker 0, Worker 0, Worker 0]
       streamingClient ''bucket'' ''object'' ''upload-1'' ''file'' 8 2 5 3 None [])
     = [Exited, Idle, Idle]
   \<and> uploadPartsCh (poolAfter firstPartFails
       [Worker 0, Worker 0, Worker 0, Worker 0, Worker 0, Worker 0, Worker 0, Worker 0, Worker 0]
       streamingClient ''bucket'' ''object'' ''upload-1'' ''file'' 8 2 5 3 None [])
     = [\<lparr>uploadPartReq.PartNum = 2, uploadPartReq.Part = None\<rparr>]
   \<and> uploadedPartsCh (poolAfter firstPartFails
       [Worker 0, Worker 0, Worker 0, Worker 0, Worker 0, Worker 0, Worker 0, Worker 0, Worker 0]
       streamingClient ''bucket'' ''object'' ''upload-1'' ''file'' 8 2 5 3 None [])
     = [\<lparr>Error = Some (OtherError ''InternalError'' ''We encountered an internal error.''),
         uploadedPartRes.PartNum = 0, uploadedPartRes.Size = 0, uploadedPartRes.Part = None\<rparr>]"
  by (simp add: pool_defs firstPartFails_def exampleEnv_def)

lemma Sprintf_d_0: "Sprintf_d 0 = ''0''"
  by (simp add: Sprintf_d_def digits.simps)

text \<open>
  In the concurrent path the check for a missing part can name no part but part 0: in
  every interleaving, when the gathering loop receives a result with no error and no part,
  the function returns InvalidArgument with the message Missing part number 0.
\<close>

lemma gathering_loop_names_part_zero:
  fixes env :: "'r env" and sched c bucket object uploadID rd sz totalPartsCount partSize
    lastPartSize progress tr metaData
  defines "P \<equiv> poolAfter env sched c bucket object uploadID rd sz totalPartsCount partSize
                  lastPartSize progress (tr @ [NewUploadID bucket object metaData])"
  assumes "CheckValidBucketName env bucket = None" and "CheckValidObjectName env object = None"
    and "newUploadID env c bucket object metaData = Inr uploadID"
    and "optimalPartInfo env sz = Inr (totalPartsCount, partSize, lastPartSize)"
    and "totalPartsCount \<le> 10000"
    and "collector P = Receiving u totalUploadedSize parts copied"
    and "uploadedPartsCh P = r # rest"
    and "Error r = None" and "uploadedPartRes.Part r = None"
  shows "putObjectMultipartStreamFromReadAt env (sched @ [Collector]) c bucket object rd sz
            metaData progress tr
           = (Return (0, Some (ErrInvalidArgument ''Missing part number 0'')), calls P)"
proof -
  have acc: "accounted P = nat totalPartsCount"
    unfolding P_def by (rule accounted_poolAfter)
  have inv: "collectorInv P"
    unfolding P_def by (rule collectorInv_poolAfter)
  have res: "resultsFromUploads env P"
    unfolding P_def by (rule resultsFromUploads_poolAfter)
  have u: "u \<le> totalPartsCount"
    using acc inv assms(7,8) by (rule result_waiting_in_loop)
  from res assms(8) have "sentFromUpload env r" by (simp add: resultsFromUploads_def)
  with assms(10) have zero: "uploadedPartRes.PartNum r = 0" by (simp add: sentFromUpload_def)
  have "step env c bucket object uploadID rd sz totalPartsCount lastPartSize progress Collector P
          = P\<lparr>uploadedPartsCh := rest, received := received P @ [r],
               collector := Done (0, Some (ErrInvalidArgument ''Missing part number 0''))\<rparr>"
    using assms(7-10) u zero by (simp add: step_def collectorStep_def Sprintf_d_0)
  then show ?thesis
    unfolding FromReadAt_pool [OF assms(2-6)] poolAfter_append P_def [symmetric]
      runSchedule_Cons runSchedule_Nil
    by (simp add: returned_def)
qed

section \<open>A result without a part\<close>

text \<open>
  C3, the concurrent path at a failing input. Two parts, the upload of part 1 fails and the
  upload of part 2 succeeds. Worker 0 draws part 1, its upload returns the error into
  \<open>err\<close>, and it enters the branch of the failure; worker 1 draws part 2 and its upload
  returns nil into the same \<open>err\<close>; worker 0 then builds its result from \<open>err\<close>, which is nil by
  now, and sends it without a part and without a part number. The gathering loop finds no
  error and no part and returns InvalidArgument with the message that names part number 0:
  the part that is missing is part 1.
\<close>

theorem missing_part_reported_as_zero:
  "returnedError firstPartFails streamingClient ''bucket'' ''object'' ''upload-1''
       (NewSectionReader (Reader ''file'') 0 5) 1 5
     = Some (OtherError ''InternalError'' ''We encountered an internal error.'')
   \<and> returnedError firstPartFails streamingClient ''bucket'' ''object'' ''upload-1''
       (NewSectionReader (Reader ''file'') 5 3) 2 3 = None
   \<and> putObjectMultipartStreamFromReadAt firstPartFails
       [Worker 0, Worker 0, Worker 0, Worker 0, Worker 0, Worker 0, Worker 0,
        Worker 1, Worker 1, Worker 1, Worker 1, Worker 1, Worker 1,
        Worker 0, Worker 0, Collector]
       streamingClient ''bucket'' ''object'' ''file'' 8 [] None []
     = (Return (0, Some (ErrInvalidArgument ''Missing part number 0'')),
        [NewUploadID ''bucket'' ''object'' [],
         UploadPart ''bucket'' ''object'' ''upload-1''
           (NewSectionReader (Reader ''file'') 0 5) 1 5,
         UploadPart ''bucket'' ''object'' ''upload-1''
           (NewSectionReader (Reader ''file'') 5 3) 2 3])"
  by (simp add: putObjectMultipartStreamFromReadAt_def returned_def pool_defs firstPartFails_def
        exampleEnv_def Sprintf_d_def digits.simps)

section \<open>The part loop of the sequential path\<close>

lemma partLoop_end:
  "totalPartsCount < p \<Longrightarrow>
   partLoop env c bucket object uploadID rd progress sz totalPartsCount lastPartSize
     p partSize tot info tr = (LoopDone p tot info, tr)"
  by (subst partLoop.simps) simp

lemma partLoop_success:
  assumes "p \<le> totalPartsCount"
    and "sequentialUpload env c bucket object uploadID rd progress totalPartsCount partSize
           lastPartSize p = Inr part"
  shows "partLoop env c bucket object uploadID rd progress sz totalPartsCount lastPartSize
           p partSize tot info tr
         = partLoop env c bucket object uploadID rd progress sz totalPartsCount lastPartSize
             (p + 1) (plannedSize totalPartsCount partSize lastPartSize p)
             (tot + plannedSize totalPartsCount partSize lastPartSize p) (info(p \<mapsto> part))
             (tr @ [sequentialCall bucket object uploadID rd progress totalPartsCount partSize
                      lastPartSize p])"
  using assms
  by (subst partLoop.simps)
     (simp add: sequentialUpload_def sequentialCall_def sequentialBody_def plannedSize_def Let_def)

lemma partLoop_failure:
  assumes "p \<le> totalPartsCount"
    and "sequentialUpload env c bucket object uploadID rd progress totalPartsCount partSize
           lastPartSize p = Inl err"
  shows "partLoop env c bucket object uploadID rd progress sz totalPartsCount lastPartSize
           p partSize tot info tr
         = (if err = EOF \<and> sz <s 0 then LoopDone p tot info else LoopReturn (tot, Some err),
            tr @ [sequentialCall bucket object uploadID rd progress totalPartsCount partSize
                    lastPartSize p])"
  using assms
  by (subst partLoop.simps)
     (simp add: sequentialUpload_def sequentialCall_def sequentialBody_def plannedSize_def Let_def)

lemma plannedSize_next:
  "p < totalPartsCount \<Longrightarrow>
   plannedSize totalPartsCount (plannedSize totalPartsCount partSize lastPartSize p) lastPartSize
     = plannedSize totalPartsCount partSize lastPartSize"
  by (simp add: plannedSize_def fun_eq_iff)

lemma sequentialUpload_next:
  "p < totalPartsCount \<Longrightarrow>
   sequentialUpload env c bucket object uploadID rd progress totalPartsCount
     (plannedSize totalPartsCount partSize lastPartSize p) lastPartSize
     = sequentialUpload env c bucket object uploadID rd progress totalPartsCount partSize
         lastPartSize"
  by (simp add: sequentialUpload_def fun_eq_iff plannedSize_def)

lemma sequentialCall_next:
  "p < totalPartsCount \<Longrightarrow>
   sequentialCall bucket object uploadID rd progress totalPartsCount
     (plannedSize totalPartsCount partSize lastPartSize p) lastPartSize
     = sequentialCall bucket object uploadID rd progress totalPartsCount partSize lastPartSize"
  by (simp add: sequentialCall_def fun_eq_iff plannedSize_def)

lemma partLoop_done:
  assumes "partLoop env c bucket object uploadID rd progress sz n lastPartSize
             p partSize tot info tr = (LoopDone q tot' info', tr')"
  shows "p \<le> q \<and> q \<le> max p (n + 1)
       \<and> tot' = tot + sum_list (map (plannedSize n partSize lastPartSize) [p..q - 1])
       \<and> (\<forall>i. p \<le> i \<and> i < q \<longrightarrow>
             (\<exists>part. info' i = Some part
                \<and> sequentialUpload env c bucket object uploadID rd progress n partSize
                     lastPartSize i = Inr part))
       \<and> (\<forall>i. \<not> (p \<le> i \<and> i < q) \<longrightarrow> info' i = info i)
       \<and> (q \<le> n \<longrightarrow> sz <s 0
             \<and> sequentialUpload env c bucket object uploadID rd progress n partSize
                  lastPartSize q = Inl EOF)
       \<and> tr' = tr @ map (sequentialCall bucket object uploadID rd progress n partSize
                           lastPartSize) [p..min q n]"
  using assms
proof (induction "nat (n + 1 - p)" arbitrary: p partSize tot info tr)
  case 0
  then have "n < p" by simp
  with "0.prems" show ?case
    by (auto simp: partLoop_end)
next
  case (Suc k)
  then have le: "p \<le> n" by simp
  show ?case
  proof (cases "sequentialUpload env c bucket object uploadID rd progress n partSize
                  lastPartSize p")
    case (Inl err)
    with Suc.prems le show ?thesis
      by (auto simp: partLoop_failure split: if_splits)
  next
    case (Inr part)
    let ?ps = "plannedSize n partSize lastPartSize p"
    have run: "partLoop env c bucket object uploadID rd progress sz n lastPartSize
                 (p + 1) ?ps (tot + ?ps) (info(p \<mapsto> part))
                 (tr @ [sequentialCall bucket object uploadID rd progress n partSize
                          lastPartSize p]) = (LoopDone q tot' info', tr')"
      using Suc.prems partLoop_success [OF le Inr] by simp
    have k: "k = nat (n + 1 - (p + 1))" using Suc.hyps(2) by simp
    note IH = Suc.hyps(1) [OF k run]
    show ?thesis
    proof (cases "p < n")
      case True
      note IH' = IH [unfolded plannedSize_next [OF True] sequentialUpload_next [OF True]
          sequentialCall_next [OF True]]
      have pq: "p + 1 \<le> q" "q \<le> n + 1" using IH' True by auto
      have up: "[p..q - 1] = p # [p + 1..q - 1]"
        using pq by (simp add: upto_rec1)
      have um: "[p..min q n] = p # [p + 1..min q n]"
        using pq True by (simp add: upto_rec1)
      have tot: "tot' = tot + sum_list (map (plannedSize n partSize lastPartSize) [p..q - 1])"
        using IH' by (simp add: up add.assoc)
      have all: "\<forall>i. p \<le> i \<and> i < q \<longrightarrow>
             (\<exists>part. info' i = Some part
                \<and> sequentialUpload env c bucket object uploadID rd progress n partSize
                     lastPartSize i = Inr part)"
      proof (intro allI impI)
        fix i assume "p \<le> i \<and> i < q"
        then consider "i = p" | "p + 1 \<le> i \<and> i < q" by linarith
        then show "\<exists>part. info' i = Some part
                \<and> sequentialUpload env c bucket object uploadID rd progress n partSize
                     lastPartSize i = Inr part"
        proof cases
          case 1
          then have "info' i = (info(p \<mapsto> part)) i" using IH' by simp
          with 1 Inr show ?thesis by simp
        next
          case 2
          with IH' show ?thesis by blast
        qed
      qed
      have rest: "\<forall>i. \<not> (p \<le> i \<and> i < q) \<longrightarrow> info' i = info i"
      proof (intro allI impI)
        fix i assume a: "\<not> (p \<le> i \<and> i < q)"
        with pq have "\<not> (p + 1 \<le> i \<and> i < q)" and "i \<noteq> p" by auto
        with IH' show "info' i = info i" by simp
      qed
      have brk: "q \<le> n \<longrightarrow> sz <s 0
             \<and> sequentialUpload env c bucket object uploadID rd progress n partSize
                  lastPartSize q = Inl EOF"
        using IH' by blast
      have trc: "tr' = tr @ map (sequentialCall bucket object uploadID rd progress n partSize
                           lastPartSize) [p..min q n]"
        using IH' by (simp add: um)
      from pq tot all rest brk trc show ?thesis by simp
    next
      case False
      with le have pn: "p = n" by simp
      from IH pn have q: "q = n + 1" by simp
      from IH pn q Inr show ?thesis
        by (auto simp: upto_rec1)
    qed
  qed
qed

lemma partLoop_return:
  assumes "partLoop env c bucket object uploadID rd progress sz n lastPartSize
             p partSize tot info tr = (LoopReturn (tot', e), tr')"
  shows "\<exists>q err. p \<le> q \<and> q \<le> n \<and> e = Some err \<and> \<not> (err = EOF \<and> sz <s 0)
       \<and> tot' = tot + sum_list (map (plannedSize n partSize lastPartSize) [p..q - 1])
       \<and> (\<forall>i. p \<le> i \<and> i < q \<longrightarrow>
             (\<exists>part. sequentialUpload env c bucket object uploadID rd progress n partSize
                       lastPartSize i = Inr part))
       \<and> sequentialUpload env c bucket object uploadID rd progress n partSize
             lastPartSize q = Inl err
       \<and> tr' = tr @ map (sequentialCall bucket object uploadID rd progress n partSize
                           lastPartSize) [p..q]"
  using assms
proof (induction "nat (n + 1 - p)" arbitrary: p partSize tot info tr)
  case 0
  then have "n < p" by simp
  with "0.prems" show ?case
    by (auto simp: partLoop_end)
next
  case (Suc k)
  then have le: "p \<le> n" by simp
  show ?case
  proof (cases "sequentialUpload env c bucket object uploadID rd progress n partSize
                  lastPartSize p")
    case (Inl err)
    with Suc.prems le have "e = Some err \<and> \<not> (err = EOF \<and> sz <s 0) \<and> tot' = tot
        \<and> tr' = tr @ [sequentialCall bucket object uploadID rd progress n partSize lastPartSize p]"
      by (simp add: partLoop_failure split: if_splits)
    with Inl le show ?thesis
      by (intro exI [of _ p] exI [of _ err]) auto
  next
    case (Inr part)
    let ?ps = "plannedSize n partSize lastPartSize p"
    have run: "partLoop env c bucket object uploadID rd progress sz n lastPartSize
                 (p + 1) ?ps (tot + ?ps) (info(p \<mapsto> part))
                 (tr @ [sequentialCall bucket object uploadID rd progress n partSize
                          lastPartSize p]) = (LoopReturn (tot', e), tr')"
      using Suc.prems partLoop_success [OF le Inr] by simp
    have k: "k = nat (n + 1 - (p + 1))" using Suc.hyps(2) by simp
    from Suc.hyps(1) [OF k run] obtain q err where
      IH: "p + 1 \<le> q" "q \<le> n" "e = Some err" "\<not> (err = EOF \<and> sz <s 0)"
        "tot' = tot + ?ps + sum_list (map (plannedSize n ?ps lastPartSize) [p + 1..q - 1])"
        "\<forall>i. p + 1 \<le> i \<and> i < q \<longrightarrow>
             (\<exists>part. sequentialUpload env c bucket object uploadID rd progress n ?ps
                       lastPartSize i = Inr part)"
        "sequentialUpload env c bucket object uploadID rd progress n ?ps lastPartSize q = Inl err"
        "tr' = (tr @ [sequentialCall bucket object uploadID rd progress n partSize
                          lastPartSize p]) @ map (sequentialCall bucket object uploadID rd progress n ?ps
                           lastPartSize) [p + 1..q]"
      by blast
    from IH have lt: "p < n" by simp
    have up: "[p..q - 1] = p # [p + 1..q - 1]"
      using IH by (simp add: upto_rec1)
    have um: "[p..q] = p # [p + 1..q]"
      using IH by (simp add: upto_rec1)
    have all: "\<forall>i. p \<le> i \<and> i < q \<longrightarrow>
             (\<exists>part. sequentialUpload env c bucket object uploadID rd progress n partSize
                       lastPartSize i = Inr part)"
    proof (intro allI impI)
      fix i assume "p \<le> i \<and> i < q"
      then consider "i = p" | "p + 1 \<le> i \<and> i < q" by linarith
      then show "\<exists>part. sequentialUpload env c bucket object uploadID rd progress n partSize
                       lastPartSize i = Inr part"
        using Inr IH(6) unfolding sequentialUpload_next [OF lt] by cases auto
    qed
    show ?thesis
      using IH(1-5,7,8) all
      unfolding plannedSize_next [OF lt] sequentialUpload_next [OF lt]
          sequentialCall_next [OF lt]
      by (intro exI [of _ q] exI [of _ err]) (simp add: add.assoc up um)
  qed
qed

lemma partLoop_forward:
  assumes ok: "\<forall>i. 1 \<le> i \<and> i < k \<longrightarrow>
             sequentialUpload env c bucket object uploadID rd progress n partSize lastPartSize i
               = Inr (uploaded i)"
    and k: "1 \<le> k" "k \<le> max 1 (n + 1)"
    and brk: "k \<le> n \<longrightarrow> sz <s 0
             \<and> sequentialUpload env c bucket object uploadID rd progress n partSize
                  lastPartSize k = Inl EOF"
  shows "partLoop env c bucket object uploadID rd progress sz n lastPartSize
           1 partSize 0 Map.empty tr
         = (LoopDone k (sum_list (map (plannedSize n partSize lastPartSize) [1..k - 1]))
              (\<lambda>i. if 1 \<le> i \<and> i < k then Some (uploaded i) else None),
            tr @ map (sequentialCall bucket object uploadID rd progress n partSize lastPartSize)
                   [1..min k n])"
proof -
  obtain ex tr' where run: "partLoop env c bucket object uploadID rd progress sz n lastPartSize
           1 partSize 0 Map.empty tr = (ex, tr')"
    by (cases "partLoop env c bucket object uploadID rd progress sz n lastPartSize
           1 partSize 0 Map.empty tr")
  show ?thesis
  proof (cases ex)
    case (LoopReturn r)
    obtain t e where r: "r = (t, e)" by (cases r)
    from partLoop_return [OF run [unfolded LoopReturn r]] obtain q err where
      q: "1 \<le> q" "q \<le> n" "\<not> (err = EOF \<and> sz <s 0)"
         "\<forall>i. 1 \<le> i \<and> i < q \<longrightarrow>
             (\<exists>part. sequentialUpload env c bucket object uploadID rd progress n partSize
                       lastPartSize i = Inr part)"
         "sequentialUpload env c bucket object uploadID rd progress n partSize
             lastPartSize q = Inl err"
      by blast
    consider "q < k" | "q = k" | "k < q" by linarith
    then have False
    proof cases
      case 1
      with q(1,5) ok show False by auto
    next
      case 2
      with q(2,3,5) brk show False by auto
    next
      case 3
      with q(2) have "k \<le> n" by simp
      with brk have "sequentialUpload env c bucket object uploadID rd progress n partSize
                  lastPartSize k = Inl EOF" by simp
      moreover from q(4) k(1) 3 have "\<exists>part. sequentialUpload env c bucket object uploadID rd
                  progress n partSize lastPartSize k = Inr part" by simp
      ultimately show False by auto
    qed
    then show ?thesis ..
  next
    case (LoopDone q t info')
    note d = partLoop_done [OF run [unfolded LoopDone]]
    have qk: "q = k"
    proof -
      consider "q < k" | "q = k" | "k < q" by linarith
      then show ?thesis
      proof cases
        case 1
        with k d have "q \<le> n" by auto
        with d have "sequentialUpload env c bucket object uploadID rd progress n partSize
                  lastPartSize q = Inl EOF" by blast
        moreover from d 1 ok have "sequentialUpload env c bucket object uploadID rd progress n
                  partSize lastPartSize q = Inr (uploaded q)" by blast
        ultimately show ?thesis by simp
      next
        case 2
        then show ?thesis .
      next
        case 3
        with d k have "k \<le> n" by auto
        with brk have "sequentialUpload env c bucket object uploadID rd progress n partSize
                  lastPartSize k = Inl EOF" by simp
        moreover from d k(1) 3 have "\<exists>part. sequentialUpload env c bucket object uploadID rd
                  progress n partSize lastPartSize k = Inr part" by blast
        ultimately show ?thesis by auto
      qed
    qed
    have info: "info' = (\<lambda>i. if 1 \<le> i \<and> i < k then Some (uploaded i) else None)"
    proof (rule ext)
      fix i
      show "info' i = (if 1 \<le> i \<and> i < k then Some (uploaded i) else None)"
      proof (cases "1 \<le> i \<and> i < k")
        case True
        with d qk obtain part where "info' i = Some part"
          "sequentialUpload env c bucket object uploadID rd progress n partSize lastPartSize i
             = Inr part" by blast
        with ok True show ?thesis by simp
      next
        case False
        with d qk show ?thesis by simp
      qed
    qed
    from d qk info run LoopDone show ?thesis by simp
  qed
qed

lemma assembleParts_all:
  assumes "\<forall>j. i \<le> j \<and> j < q \<longrightarrow> info j \<noteq> None"
  shows "assembleParts q info i parts
           = Inr (parts @ map (\<lambda>j. toCompletePart (the (info j))) [i..q - 1])"
  using assms
proof (induction "nat (q - i)" arbitrary: i parts)
  case 0
  then show ?case by (subst assembleParts.simps) simp
next
  case (Suc k)
  then have lt: "i < q" by simp
  with Suc.prems obtain part where part: "info i = Some part" by auto
  have k: "k = nat (q - (i + 1))" using Suc.hyps(2) by simp
  have "assembleParts q info i parts = assembleParts q info (i + 1) (parts @ [toCompletePart part])"
    using lt part by (subst assembleParts.simps) simp
  also have "\<dots> = Inr ((parts @ [toCompletePart part])
                      @ map (\<lambda>j. toCompletePart (the (info j))) [i + 1..q - 1])"
    using Suc.prems by (intro Suc.hyps(1) [OF k]) simp
  finally show ?case using lt part by (simp add: upto_rec1 [of i "q - 1"])
qed

section \<open>The sequential path as a whole\<close>

lemma completeUpload_eq:
  "completeUpload env c bucket object uploadID tot parts tr
     = ((tot, completeMultipartUpload env c bucket object uploadID
                \<lparr>Parts = sortCompletedParts parts\<rparr>),
        tr @ [CompleteMultipartUpload bucket object uploadID
                \<lparr>Parts = sortCompletedParts parts\<rparr>])"
  by (simp add: completeUpload_def Let_def split: option.splits)

lemma finishSequential_uploaded:
  "finishSequential env c bucket object uploadID sz k tot
       (\<lambda>i. if 1 \<le> i \<and> i < k then Some (uploaded i) else None) tr
     = (if 0 <s sz \<and> tot \<noteq> sz
        then ((tot, Some (ErrUnexpectedEOF tot sz bucket object)), tr)
        else completeUpload env c bucket object uploadID tot
               (map (\<lambda>j. toCompletePart (uploaded j)) [1..k - 1]) tr)"
proof -
  have "assembleParts k (\<lambda>i. if 1 \<le> i \<and> i < k then Some (uploaded i) else None) 1 []
          = Inr ([] @ map (\<lambda>j. toCompletePart
                   (the ((\<lambda>i. if 1 \<le> i \<and> i < k then Some (uploaded i) else None) j)))
                 [1..k - 1])"
    by (rule assembleParts_all) simp
  also have "map (\<lambda>j. toCompletePart
                   (the ((\<lambda>i. if 1 \<le> i \<and> i < k then Some (uploaded i) else None) j)))
                 [1..k - 1] = map (\<lambda>j. toCompletePart (uploaded j)) [1..k - 1]"
    by (rule map_cong) auto
  finally show ?thesis by (simp add: finishSequential_def)
qed

lemma NoChecksum_forward:
  assumes "CheckValidBucketName env bucket = None" and "CheckValidObjectName env object = None"
    and "newUploadID env c bucket object metaData = Inr uploadID"
    and "optimalPartInfo env sz = Inr (n, partSize, lastPartSize)"
    and "\<forall>i. 1 \<le> i \<and> i < k \<longrightarrow>
             sequentialUpload env c bucket object uploadID rd progress n partSize lastPartSize i
               = Inr (uploaded i)"
    and "1 \<le> k" "k \<le> max 1 (n + 1)"
    and "k \<le> n \<longrightarrow> sz <s 0
             \<and> sequentialUpload env c bucket object uploadID rd progress n partSize
                  lastPartSize k = Inl EOF"
  shows "putObjectMultipartStreamNoChecksum env c bucket object rd sz metaData progress tr
         = finishSequential env c bucket object uploadID sz k
             (sum_list (map (plannedSize n partSize lastPartSize) [1..k - 1]))
             (\<lambda>i. if 1 \<le> i \<and> i < k then Some (uploaded i) else None)
             ((tr @ [NewUploadID bucket object metaData])
               @ map (sequentialCall bucket object uploadID rd progress n partSize lastPartSize)
                   [1..min k n])"
  using assms(1-4)
  by (simp add: putObjectMultipartStreamNoChecksum_def
        partLoop_forward [OF assms(5-8), of "tr @ [NewUploadID bucket object metaData]"])

text \<open>
  C4. In the sequential path with a negative size (unknown length): when the uploads of the
  parts 1 to k - 1 succeed and the upload of part k returns io.EOF, the loop is left without
  an error, the list handed to completeMultipartUpload is made of exactly the parts returned
  for 1 to k - 1 (their part numbers are 1 to k - 1, in this order, when every part carries
  the number it was uploaded under), the error of the operation is the one of the
  completion, and the operation returns the uploaded total with no error when the completion
  succeeds.
\<close>

theorem sequential_unknown_size_stops_at_EOF:
  assumes "CheckValidBucketName env bucket = None" and "CheckValidObjectName env object = None"
    and "newUploadID env c bucket object metaData = Inr uploadID"
    and "optimalPartInfo env sz = Inr (n, partSize, lastPartSize)"
    and "sz <s 0"
    and "\<forall>i. 1 \<le> i \<and> i < k \<longrightarrow>
             sequentialUpload env c bucket object uploadID rd progress n partSize lastPartSize i
               = Inr (uploaded i)"
    and "1 \<le> k" and "k \<le> n"
    and "sequentialUpload env c bucket object uploadID rd progress n partSize lastPartSize k
           = Inl EOF"
  defines "parts \<equiv> sortCompletedParts (map (\<lambda>j. toCompletePart (uploaded j)) [1..k - 1])"
  shows "putObjectMultipartStreamNoChecksum env c bucket object rd sz metaData progress tr
          = ((sum_list (map (plannedSize n partSize lastPartSize) [1..k - 1]),
              completeMultipartUpload env c bucket object uploadID \<lparr>Parts = parts\<rparr>),
             tr @ [NewUploadID bucket object metaData]
                @ map (sequentialCall bucket object uploadID rd progress n partSize lastPartSize)
                    [1..k]
                @ [CompleteMultipartUpload bucket object uploadID \<lparr>Parts = parts\<rparr>])
       \<and> mset parts = mset (map (\<lambda>j. toCompletePart (uploaded j)) [1..k - 1])
       \<and> ((\<forall>j. 1 \<le> j \<and> j < k \<longrightarrow> ObjectPart.PartNumber (uploaded j) = j) \<longrightarrow>
            parts = map (\<lambda>j. toCompletePart (uploaded j)) [1..k - 1]
            \<and> map CompletePart.PartNumber parts = [1..k - 1])"
proof -
  have k': "k \<le> max 1 (n + 1)" using assms(8) by simp
  have brk: "k \<le> n \<longrightarrow> sz <s 0
             \<and> sequentialUpload env c bucket object uploadID rd progress n partSize
                  lastPartSize k = Inl EOF"
    using assms(5,9) by simp
  have n0: "\<not> 0 <s sz" using assms(5) signed.less_asym by blast
  have 1: "putObjectMultipartStreamNoChecksum env c bucket object rd sz metaData progress tr
          = ((sum_list (map (plannedSize n partSize lastPartSize) [1..k - 1]),
              completeMultipartUpload env c bucket object uploadID \<lparr>Parts = parts\<rparr>),
             tr @ [NewUploadID bucket object metaData]
                @ map (sequentialCall bucket object uploadID rd progress n partSize lastPartSize)
                    [1..k]
                @ [CompleteMultipartUpload bucket object uploadID \<lparr>Parts = parts\<rparr>])"
    using n0 assms(8)
    by (simp add: NoChecksum_forward [OF assms(1-4,6,7) k' brk] finishSequential_uploaded
          completeUpload_eq parts_def)
  have 2: "mset parts = mset (map (\<lambda>j. toCompletePart (uploaded j)) [1..k - 1])"
    by (simp add: parts_def sortCompletedParts_def)
  have 3: "parts = map (\<lambda>j. toCompletePart (uploaded j)) [1..k - 1]
            \<and> map CompletePart.PartNumber parts = [1..k - 1]"
    if echo: "\<forall>j. 1 \<le> j \<and> j < k \<longrightarrow> ObjectPart.PartNumber (uploaded j) = j"
  proof -
    have m: "map CompletePart.PartNumber (map (\<lambda>j. toCompletePart (uploaded j)) [1..k - 1])
              = [1..k - 1]"
      unfolding map_map o_def
      by (rule map_idI) (simp add: toCompletePart_def echo)
    then have "sorted (map CompletePart.PartNumber
                 (map (\<lambda>j. toCompletePart (uploaded j)) [1..k - 1]))"
      by (simp only: sorted_upto)
    then have "parts = map (\<lambda>j. toCompletePart (uploaded j)) [1..k - 1]"
      unfolding parts_def sortCompletedParts_def by (rule sort_key_id_if_sorted)
    with m show ?thesis by simp
  qed
  from 1 2 3 show ?thesis by blast
qed

theorem sequential_unknown_size_stops_at_EOF_witness:
  "putObjectMultipartStreamNoChecksum endsAtThirdPart streamingClient ''bucket'' ''object''
       ''stream'' (- 1) [] None []
     = ((10, None),
        [NewUploadID ''bucket'' ''object'' [],
         UploadPart ''bucket'' ''object'' ''upload-1''
           (LimitReader (newHook (Reader ''stream'') None) 5) 1 5,
         UploadPart ''bucket'' ''object'' ''upload-1''
           (LimitReader (newHook (Reader ''stream'') None) 5) 2 5,
         UploadPart ''bucket'' ''object'' ''upload-1''
           (LimitReader (newHook (Reader ''stream'') None) 5) 3 5,
         CompleteMultipartUpload ''bucket'' ''object'' ''upload-1''
           \<lparr>Parts = [\<lparr>CompletePart.PartNumber = 1, CompletePart.ETag = ''etag''\<rparr>,
                     \<lparr>CompletePart.PartNumber = 2, CompletePart.ETag = ''etag''\<rparr>]\<rparr>])"
proof -
  have 1: "CheckValidBucketName endsAtThirdPart ''bucket'' = None"
    and 2: "CheckValidObjectName endsAtThirdPart ''object'' = None"
    and 3: "newUploadID endsAtThirdPart streamingClient ''bucket'' ''object'' [] = Inr ''upload-1''"
    and 4: "optimalPartInfo endsAtThirdPart (- 1) = Inr (3, 5, 5)"
    and 5: "(- 1 :: int64) <s 0"
    by (simp_all add: endsAtThirdPart_def exampleEnv_def)
  have 6: "\<forall>i. 1 \<le> i \<and> i < 3 \<longrightarrow>
             sequentialUpload endsAtThirdPart streamingClient ''bucket'' ''object'' ''upload-1''
               ''stream'' None 3 5 5 i
               = Inr \<lparr>ObjectPart.PartNumber = i, ObjectPart.ETag = ''etag'', ObjectPart.Size = 5\<rparr>"
    by (simp add: sequentialUpload_def plannedSize_def endsAtThirdPart_def exampleEnv_def)
  have 7: "(1 :: int) \<le> 3" and 8: "(3 :: int) \<le> 3" by simp_all
  have 9: "sequentialUpload endsAtThirdPart streamingClient ''bucket'' ''object'' ''upload-1''
               ''stream'' None 3 5 5 3 = Inl EOF"
    by (simp add: sequentialUpload_def plannedSize_def endsAtThirdPart_def exampleEnv_def)
  show ?thesis
    using sequential_unknown_size_stops_at_EOF [OF 1 2 3 4 5 6 7 8 9, of "[]"]
    by (simp add: upto.simps plannedSize_def sequentialCall_def sequentialBody_def
          toCompletePart_def sortCompletedParts_def endsAtThirdPart_def exampleEnv_def)
qed

section \<open>After the last result\<close>

text \<open>
  The step of the gathering loop past its last iteration, and the steps that follow it:
  the total with which the function returns is the total with which the loop was left.
\<close>

lemma collectorStep_after_loop:
  assumes "collector st = Receiving u tot parts copied" and "totalPartsCount < u"
  shows "collectorStep env c bucket object uploadID sz totalPartsCount progress st
           = (if tot \<noteq> sz
              then st\<lparr>collector := Done (tot, Some (ErrUnexpectedEOF tot sz bucket object))\<rparr>
              else st\<lparr>errVar := completeMultipartUpload env c bucket object uploadID
                                   \<lparr>Parts = sortCompletedParts parts\<rparr>,
                      calls := calls st @ [CompleteMultipartUpload bucket object uploadID
                                             \<lparr>Parts = sortCompletedParts parts\<rparr>],
                      collector := Completing tot\<rparr>)"
  using assms by (simp add: collectorStep_def Let_def)








lemma after_loop_result:
  assumes q: "quiet st" and col: "collector st = Receiving u tot parts copied"
    and u: "totalPartsCount < u"
  shows "returned (runSchedule env c bucket object uploadID rd sz totalPartsCount lastPartSize
                     progress
                     (Collector # map Worker ws @ Collector # map Worker vs @ [Collector]) st)
           = (if tot \<noteq> sz
              then (Return (tot, Some (ErrUnexpectedEOF tot sz bucket object)), calls st)
              else (Return (sz, completeMultipartUpload env c bucket object uploadID
                                  \<lparr>Parts = sortCompletedParts parts\<rparr>),
                    calls st @ [CompleteMultipartUpload bucket object uploadID
                                  \<lparr>Parts = sortCompletedParts parts\<rparr>]))"
proof -
  let ?stp = "step env c bucket object uploadID rd sz totalPartsCount lastPartSize progress"
  let ?run = "runSchedule env c bucket object uploadID rd sz totalPartsCount lastPartSize progress"
  let ?cm = "\<lparr>Parts = sortCompletedParts parts\<rparr>"
  define st1 where "st1 = ?stp Collector st"
  have st1: "st1 = (if tot \<noteq> sz
              then st\<lparr>collector := Done (tot, Some (ErrUnexpectedEOF tot sz bucket object))\<rparr>
              else st\<lparr>errVar := completeMultipartUpload env c bucket object uploadID ?cm,
                      calls := calls st @ [CompleteMultipartUpload bucket object uploadID ?cm],
                      collector := Completing tot\<rparr>)"
    unfolding st1_def step_def Let_def agent.case collectorStep_after_loop [OF col u] ..
  from q have "quiet st1" by (simp add: st1 quiet_def)
  from quiet_workers_run [OF this, of env c bucket object uploadID rd sz totalPartsCount
      lastPartSize progress ws]
  obtain ws' where ws': "?run (map Worker ws) st1 = st1\<lparr>workers := ws'\<rparr>"
    and nb: "\<forall>s \<in> set ws'. \<not> busy s" by blast
  define st2 where "st2 = ?stp Collector (st1\<lparr>workers := ws'\<rparr>)"
  have st2: "st2 = (if tot \<noteq> sz then st1\<lparr>workers := ws'\<rparr>
              else (case completeMultipartUpload env c bucket object uploadID ?cm of
                      None \<Rightarrow> st1\<lparr>workers := ws', collector := Done (tot, None)\<rparr>
                    | Some err \<Rightarrow> st1\<lparr>workers := ws', collector := Returning tot\<rparr>))"
    by (simp add: st2_def st1 step_def collectorStep_def split: option.splits)
  from q nb have "quiet st2"
    by (simp add: st2 st1 quiet_def split: option.splits)
  from quiet_workers_run [OF this, of env c bucket object uploadID rd sz totalPartsCount
      lastPartSize progress vs]
  obtain ws'' where ws'': "?run (map Worker vs) st2 = st2\<lparr>workers := ws''\<rparr>" by blast
  have "?run (Collector # map Worker ws @ Collector # map Worker vs @ [Collector]) st
          = ?stp Collector (st2\<lparr>workers := ws''\<rparr>)"
    by (simp add: runSchedule_Cons runSchedule_append runSchedule_Nil st1_def [symmetric] ws'
          st2_def [symmetric] ws'')
  also have "returned \<dots>
           = (if tot \<noteq> sz
              then (Return (tot, Some (ErrUnexpectedEOF tot sz bucket object)), calls st)
              else (Return (sz, completeMultipartUpload env c bucket object uploadID ?cm),
                    calls st @ [CompleteMultipartUpload bucket object uploadID ?cm]))"
    by (simp add: st2 st1 step_def collectorStep_def returned_def split: option.splits)
  finally show ?thesis .
qed

section \<open>The check of the uploaded size\<close>

lemma NoChecksum_all_uploaded:
  assumes "CheckValidBucketName env bucket = None" and "CheckValidObjectName env object = None"
    and "newUploadID env c bucket object metaData = Inr uploadID"
    and "optimalPartInfo env sz = Inr (n, partSize, lastPartSize)"
    and ok: "\<forall>i. 1 \<le> i \<and> i \<le> n \<longrightarrow>
             sequentialUpload env c bucket object uploadID rd progress n partSize lastPartSize i
               = Inr (uploaded i)"
  shows "putObjectMultipartStreamNoChecksum env c bucket object rd sz metaData progress tr
         = finishSequential env c bucket object uploadID sz (max 1 (n + 1))
             (sum_list (map (plannedSize n partSize lastPartSize) [1..n]))
             (\<lambda>i. if 1 \<le> i \<and> i < max 1 (n + 1) then Some (uploaded i) else None)
             (tr @ NewUploadID bucket object metaData
                # map (sequentialCall bucket object uploadID rd progress n partSize lastPartSize)
                    [1..n])"
proof -
  have 1: "\<forall>i. 1 \<le> i \<and> i < max 1 (n + 1) \<longrightarrow>
             sequentialUpload env c bucket object uploadID rd progress n partSize lastPartSize i
               = Inr (uploaded i)"
    using ok by auto
  have 2: "(1 :: int) \<le> max 1 (n + 1)" "max 1 (n + 1) \<le> max 1 (n + 1)" by simp_all
  have 3: "max 1 (n + 1) \<le> n \<longrightarrow> sz <s 0
             \<and> sequentialUpload env c bucket object uploadID rd progress n partSize
                  lastPartSize (max 1 (n + 1)) = Inl EOF"
    by simp
  have a: "[1..max 1 (n + 1) - 1] = [1..n]"
    by (cases "1 \<le> n") (simp_all add: max_def)
  have b: "[1..min (max 1 (n + 1)) n] = [1..n]"
    by (cases "1 \<le> n") (simp_all add: max_def min_def)
  show ?thesis
    using NoChecksum_forward [OF assms(1-4) 1 2 3, of tr] by (simp add: a b)
qed

lemma finishSequential_all_uploaded:
  "finishSequential env c bucket object uploadID sz (max 1 (n + 1)) tot
       (\<lambda>i. if 1 \<le> i \<and> i < max 1 (n + 1) then Some (uploaded i) else None) tr
     = (if 0 <s sz \<and> tot \<noteq> sz
        then ((tot, Some (ErrUnexpectedEOF tot sz bucket object)), tr)
        else completeUpload env c bucket object uploadID tot
               (map (\<lambda>j. toCompletePart (uploaded j)) [1..n]) tr)"
proof -
  have a: "[1..max 1 (n + 1) - 1] = [1..n]"
    by (cases "1 \<le> n") (simp_all add: max_def)
  show ?thesis
    using finishSequential_uploaded [of env c bucket object uploadID sz "max 1 (n + 1)" tot
        uploaded tr]
    by (simp only: a)
qed

text \<open>
  C2 as the code has it. Sequential path: when every part of the plan has been uploaded,
  the uploaded total is the sum of the planned sizes. The source compares it with the size
  only when the size is above zero: then a total that differs from the size returns
  UnexpectedEOF with no call of completeMultipartUpload, and an equal total goes on to the
  completion and returns the size with the error of the completion. With the size 0 (or a
  negative size) nothing is compared: the completion is called and the total is returned.
  Concurrent path: when the gathering loop has received all results, its next step
  compares totalUploadedSize with the size, whatever the size: a different total returns
  UnexpectedEOF with no call of completeMultipartUpload, an equal total calls the
  completion with the sorted parts and, after the test of its error, returns the size with
  that error, whatever the workers, which have nothing left to upload, do meanwhile.
\<close>

theorem uploaded_size_checked:
  fixes env :: "'r env" and sched c bucket object uploadID rd sz n partSize lastPartSize
    progress tr metaData
  defines "P \<equiv> poolAfter env sched c bucket object uploadID rd sz n partSize lastPartSize
                  progress (tr @ [NewUploadID bucket object metaData])"
  assumes "CheckValidBucketName env bucket = None" and "CheckValidObjectName env object = None"
    and "newUploadID env c bucket object metaData = Inr uploadID"
    and "optimalPartInfo env sz = Inr (n, partSize, lastPartSize)"
  shows "((\<forall>i. 1 \<le> i \<and> i \<le> n \<longrightarrow>
             sequentialUpload env c bucket object uploadID rd progress n partSize lastPartSize i
               = Inr (uploaded i)) \<longrightarrow>
          putObjectMultipartStreamNoChecksum env c bucket object rd sz metaData progress tr
            = (if 0 <s sz \<and> sum_list (map (plannedSize n partSize lastPartSize) [1..n]) \<noteq> sz
               then ((sum_list (map (plannedSize n partSize lastPartSize) [1..n]),
                      Some (ErrUnexpectedEOF
                              (sum_list (map (plannedSize n partSize lastPartSize) [1..n]))
                              sz bucket object)),
                     tr @ NewUploadID bucket object metaData
                        # map (sequentialCall bucket object uploadID rd progress n partSize
                                lastPartSize) [1..n])
               else ((sum_list (map (plannedSize n partSize lastPartSize) [1..n]),
                      completeMultipartUpload env c bucket object uploadID
                            \<lparr>Parts = sortCompletedParts
                                       (map (\<lambda>j. toCompletePart (uploaded j)) [1..n])\<rparr>),
                     tr @ NewUploadID bucket object metaData
                        # map (sequentialCall bucket object uploadID rd progress n partSize
                                lastPartSize) [1..n]
                        @ [CompleteMultipartUpload bucket object uploadID
                             \<lparr>Parts = sortCompletedParts
                                        (map (\<lambda>j. toCompletePart (uploaded j)) [1..n])\<rparr>])))
       \<and> (n \<le> 10000 \<and> collector P = Receiving u tot parts copied \<and> n < u \<longrightarrow>
          putObjectMultipartStreamFromReadAt env
              (sched @ Collector # map Worker ws @ Collector # map Worker vs @ [Collector])
              c bucket object rd sz metaData progress tr
            = (if tot \<noteq> sz
               then (Return (tot, Some (ErrUnexpectedEOF tot sz bucket object)), calls P)
               else (Return (sz, completeMultipartUpload env c bucket object uploadID
                                   \<lparr>Parts = sortCompletedParts parts\<rparr>),
                     calls P @ [CompleteMultipartUpload bucket object uploadID
                                  \<lparr>Parts = sortCompletedParts parts\<rparr>])))"
proof (intro conjI impI)
  let ?planned = "sum_list (map (plannedSize n partSize lastPartSize) [1..n])"
  assume ok: "\<forall>i. 1 \<le> i \<and> i \<le> n \<longrightarrow>
             sequentialUpload env c bucket object uploadID rd progress n partSize lastPartSize i
               = Inr (uploaded i)"
  show "putObjectMultipartStreamNoChecksum env c bucket object rd sz metaData progress tr
            = (if 0 <s sz \<and> ?planned \<noteq> sz
               then ((?planned, Some (ErrUnexpectedEOF ?planned sz bucket object)),
                     tr @ NewUploadID bucket object metaData
                        # map (sequentialCall bucket object uploadID rd progress n partSize
                                lastPartSize) [1..n])
               else ((?planned, completeMultipartUpload env c bucket object uploadID
                            \<lparr>Parts = sortCompletedParts
                                       (map (\<lambda>j. toCompletePart (uploaded j)) [1..n])\<rparr>),
                     tr @ NewUploadID bucket object metaData
                        # map (sequentialCall bucket object uploadID rd progress n partSize
                                lastPartSize) [1..n]
                        @ [CompleteMultipartUpload bucket object uploadID
                             \<lparr>Parts = sortCompletedParts
                                        (map (\<lambda>j. toCompletePart (uploaded j)) [1..n])\<rparr>]))"
    unfolding NoChecksum_all_uploaded [OF assms(2-5) ok] finishSequential_all_uploaded
    by (simp add: completeUpload_eq)
next
  assume a: "n \<le> 10000 \<and> collector P = Receiving u tot parts copied \<and> n < u"
  have acc: "accounted P = nat n"
    unfolding P_def by (rule accounted_poolAfter)
  have inv: "collectorInv P"
    unfolding P_def by (rule collectorInv_poolAfter)
  from a have col: "collector P = Receiving u tot parts copied" and u: "n < u" by simp_all
  from all_received_quiet [OF acc inv col u] have q: "quiet P" by simp
  from a have n: "n \<le> 10000" by simp
  show "putObjectMultipartStreamFromReadAt env
              (sched @ Collector # map Worker ws @ Collector # map Worker vs @ [Collector])
              c bucket object rd sz metaData progress tr
            = (if tot \<noteq> sz
               then (Return (tot, Some (ErrUnexpectedEOF tot sz bucket object)), calls P)
               else (Return (sz, completeMultipartUpload env c bucket object uploadID
                                   \<lparr>Parts = sortCompletedParts parts\<rparr>),
                     calls P @ [CompleteMultipartUpload bucket object uploadID
                                  \<lparr>Parts = sortCompletedParts parts\<rparr>]))"
    unfolding FromReadAt_pool [OF assms(2-5) n] poolAfter_append P_def [symmetric]
    by (rule after_loop_result [OF q col u])
qed

lemma exampleEnv_short_pool:
  "poolAfter exampleEnv
     [Worker 0,
      Worker 1, Worker 1, Worker 1,
      Worker 0, Worker 0, Worker 0, Worker 0, Worker 0, Worker 0, Worker 0,
      Worker 1, Worker 1, Worker 1, Worker 1, Worker 1,
      Collector, Collector]
     streamingClient ''bucket'' ''object'' ''upload-1'' ''file'' 8 2 5 3 None
     [NewUploadID ''bucket'' ''object'' []]
   = \<lparr>uploadPartsCh = [],
      uploadedPartsCh = [],
      received =
        [\<lparr>Error = None, uploadedPartRes.PartNum = 1, uploadedPartRes.Size = 3,
          uploadedPartRes.Part =
            Some \<lparr>ObjectPart.PartNumber = 1, ObjectPart.ETag = ''etag'', ObjectPart.Size = 3\<rparr>\<rparr>,
         \<lparr>Error = None, uploadedPartRes.PartNum = 2, uploadedPartRes.Size = 3,
          uploadedPartRes.Part =
            Some \<lparr>ObjectPart.PartNumber = 2, ObjectPart.ETag = ''etag'', ObjectPart.Size = 3\<rparr>\<rparr>],
      partSizeVar = 3,
      errVar = None,
      workers = [Idle, Idle, Idle],
      collector = Receiving 3 6 [\<lparr>CompletePart.PartNumber = 1, CompletePart.ETag = ''etag''\<rparr>,
                                 \<lparr>CompletePart.PartNumber = 2, CompletePart.ETag = ''etag''\<rparr>] [],
      calls =
        [NewUploadID ''bucket'' ''object'' [],
         UploadPart ''bucket'' ''object'' ''upload-1''
           (NewSectionReader (Reader ''file'') 0 3) 1 3,
         UploadPart ''bucket'' ''object'' ''upload-1''
           (NewSectionReader (Reader ''file'') 5 3) 2 3]\<rparr>"
  by (simp add: pool_defs exampleEnv_def toCompletePart_def)

theorem uploaded_size_checked_witness:
  "putObjectMultipartStreamNoChecksum exampleEnv streamingClient ''bucket'' ''object''
       ''stream'' 9 [] None []
     = ((8, Some (ErrUnexpectedEOF 8 9 ''bucket'' ''object'')),
        [NewUploadID ''bucket'' ''object'' [],
         UploadPart ''bucket'' ''object'' ''upload-1''
           (LimitReader (newHook (Reader ''stream'') None) 5) 1 5,
         UploadPart ''bucket'' ''object'' ''upload-1''
           (LimitReader (newHook (Reader ''stream'') None) 3) 2 3])
   \<and> putObjectMultipartStreamFromReadAt exampleEnv
       [Worker 0,
        Worker 1, Worker 1, Worker 1,
        Worker 0, Worker 0, Worker 0, Worker 0, Worker 0, Worker 0, Worker 0,
        Worker 1, Worker 1, Worker 1, Worker 1, Worker 1,
        Collector, Collector, Collector, Worker 2, Collector, Collector]
       streamingClient ''bucket'' ''object'' ''file'' 8 [] None []
     = (Return (6, Some (ErrUnexpectedEOF 6 8 ''bucket'' ''object'')),
        [NewUploadID ''bucket'' ''object'' [],
         UploadPart ''bucket'' ''object'' ''upload-1''
           (NewSectionReader (Reader ''file'') 0 3) 1 3,
         UploadPart ''bucket'' ''object'' ''upload-1''
           (NewSectionReader (Reader ''file'') 5 3) 2 3])"
proof -
  have v: "CheckValidBucketName exampleEnv ''bucket'' = None"
    "CheckValidObjectName exampleEnv ''object'' = None"
    "newUploadID exampleEnv streamingClient ''bucket'' ''object'' [] = Inr ''upload-1''"
    by (simp_all add: exampleEnv_def)
  have p9: "optimalPartInfo exampleEnv 9 = Inr (2, 5, 3)"
    and p8: "optimalPartInfo exampleEnv 8 = Inr (2, 5, 3)"
    by (simp_all add: exampleEnv_def)
  let ?uploaded = "\<lambda>i. \<lparr>ObjectPart.PartNumber = i, ObjectPart.ETag = ''etag'',
                          ObjectPart.Size = plannedSize 2 5 3 i\<rparr>"
  have h: "\<forall>i. 1 \<le> i \<and> i \<le> 2 \<longrightarrow>
             sequentialUpload exampleEnv streamingClient ''bucket'' ''object'' ''upload-1''
               ''stream'' None 2 5 3 i = Inr (?uploaded i)"
    by (simp add: sequentialUpload_def exampleEnv_def)
  have s: "sum_list (map (plannedSize 2 5 3) [1..2]) = 8"
    by (simp add: upto.simps plannedSize_def)
  from uploaded_size_checked [OF v p9, where rd = "''stream''" and progress = None
      and uploaded = ?uploaded and tr = "[]"] h
  have 1: "putObjectMultipartStreamNoChecksum exampleEnv streamingClient ''bucket'' ''object''
       ''stream'' 9 [] None []
     = ((8, Some (ErrUnexpectedEOF 8 9 ''bucket'' ''object'')),
        [] @ NewUploadID ''bucket'' ''object'' []
           # map (sequentialCall ''bucket'' ''object'' ''upload-1'' ''stream'' None 2 5 3) [1..2])"
    unfolding s by (simp add: word_sless_alt)
  note T = uploaded_size_checked [OF v p8, where rd = "''file''" and progress = None
      and tr = "[]" and ws = "[2]" and vs = "[]"
      and sched = "[Worker 0, Worker 1, Worker 1, Worker 1,
        Worker 0, Worker 0, Worker 0, Worker 0, Worker 0, Worker 0, Worker 0,
        Worker 1, Worker 1, Worker 1, Worker 1, Worker 1, Collector, Collector]",
      unfolded append_Nil exampleEnv_short_pool]
  have 2: "putObjectMultipartStreamFromReadAt exampleEnv
       ([Worker 0, Worker 1, Worker 1, Worker 1,
        Worker 0, Worker 0, Worker 0, Worker 0, Worker 0, Worker 0, Worker 0,
        Worker 1, Worker 1, Worker 1, Worker 1, Worker 1, Collector, Collector]
        @ Collector # map Worker [2] @ Collector # map Worker [] @ [Collector])
       streamingClient ''bucket'' ''object'' ''file'' 8 [] None []
     = (Return (6, Some (ErrUnexpectedEOF 6 8 ''bucket'' ''object'')),
        [NewUploadID ''bucket'' ''object'' [],
         UploadPart ''bucket'' ''object'' ''upload-1''
           (NewSectionReader (Reader ''file'') 0 3) 1 3,
         UploadPart ''bucket'' ''object'' ''upload-1''
           (NewSectionReader (Reader ''file'') 5 3) 2 3])"
    using T [where u = 3 and tot = 6 and copied = "[]"
        and parts = "[\<lparr>CompletePart.PartNumber = 1, CompletePart.ETag = ''etag''\<rparr>,
                      \<lparr>CompletePart.PartNumber = 2, CompletePart.ETag = ''etag''\<rparr>]"]
    by simp
  show ?thesis
    using 1 2
    by (simp add: upto.simps sequentialCall_def sequentialBody_def plannedSize_def)
qed

theorem size_zero_not_checked_counterexample:
  "putObjectMultipartStreamNoChecksum exampleEnv streamingClient ''bucket'' ''object''
       ''stream'' 0 [] None []
     = ((8, None),
        [NewUploadID ''bucket'' ''object'' [],
         UploadPart ''bucket'' ''object'' ''upload-1''
           (LimitReader (newHook (Reader ''stream'') None) 5) 1 5,
         UploadPart ''bucket'' ''object'' ''upload-1''
           (LimitReader (newHook (Reader ''stream'') None) 3) 2 3,
         CompleteMultipartUpload ''bucket'' ''object'' ''upload-1''
           \<lparr>Parts = [\<lparr>CompletePart.PartNumber = 1, CompletePart.ETag = ''etag''\<rparr>,
                     \<lparr>CompletePart.PartNumber = 2, CompletePart.ETag = ''etag''\<rparr>]\<rparr>])"
  by (simp add: putObjectMultipartStreamNoChecksum_def exampleEnv_def partLoop.simps
        finishSequential_def assembleParts.simps completeUpload_def toCompletePart_def
        sortCompletedParts_def word_sless_alt)

section \<open>What the uploaded total adds up\<close>






end
